theory Spec2Isabelle
  imports Main "HOL-Library.Word" "HOL-Library.Monad_Syntax"
begin

unbundle bit_operations_syntax

section \<open>Data model of main.c\<close>

type_synonym u8 = "8 word"
type_synonym u16 = "16 word"

text \<open>Pin numbers of the control port and the two capacities, as the macros define them.\<close>

definition CPU_RESET :: nat where "CPU_RESET = 0"
definition CPU_RW :: nat where "CPU_RW = 1"
definition CPU_IRQ :: nat where "CPU_IRQ = 2"
definition CPU_NMI :: nat where "CPU_NMI = 3"
definition CPU_SYNC :: nat where "CPU_SYNC = 4"
definition CPU_CLOCK :: nat where "CPU_CLOCK = 5"

definition MEMORY_SIZE :: nat where "MEMORY_SIZE = 4096"
definition MAX_BREAKPOINTS :: nat where "MAX_BREAKPOINTS = 10"

text \<open>
  What the program does to the bus is kept as a sequence of events: every store to the
  data-direction register, the data port and the control port, and every busy-wait delay,
  in program order.
\<close>

datatype event =
    Write_DATA_DIR u8
  | Write_DATA_BUS u8
  | Write_CONTROL_PORT u8
  | Delay_us nat
  | Delay_ms nat

text \<open>
  The input pins read by one bus cycle: \<open>PINL\<close>, \<open>PINC\<close>, \<open>PIND\<close> as
  \<open>simulate_memory\<close> reads it, \<open>PINA\<close>, and \<open>PIND\<close> as \<open>step_cpu\<close> reads
  it again after the responder has returned.
\<close>

record bus_sample =
  ADDR_BUS_HIGH :: u8
  ADDR_BUS_LOW :: u8
  CONTROL_PIN :: u8
  DATA_PIN :: u8
  CONTROL_PIN_after :: u8

text \<open>
  The globals of the program, its output registers, the serial channel (\<open>rx\<close>: the bytes
  the host sends, in order; \<open>tx\<close>: the bytes sent so far) and the number of bus cycles
  sampled so far, which indexes the stream of pin values.
\<close>

record state =
  cpu_running :: u8
  memory :: "u8 list"
  breakpoints :: "u16 list"
  breakpoint_count :: u8
  DATA_DIR :: u8
  DATA_BUS :: u8
  CONTROL_PORT :: u8
  bus_trace :: "event list"
  bus_cycle :: nat
  rx :: "u8 list"
  tx :: "u8 list"

text \<open>The arrays have their declared sizes, and the count stays within the table.\<close>

definition wf_state :: "state \<Rightarrow> bool" where
  "wf_state s \<longleftrightarrow>
     length (memory s) = MEMORY_SIZE \<and>
     length (breakpoints s) = MAX_BREAKPOINTS \<and>
     unat (breakpoint_count s) \<le> MAX_BREAKPOINTS"

text \<open>
  The state when the main loop is entered: zeroed arrays, \<open>cpu_running = 1\<close>, and the
  registers as \<open>init_cpu_interface\<close> leaves them (data bus as input; reset, IRQ and
  NMI high, clock low).
\<close>

definition startup :: "u8 list \<Rightarrow> state" where
  "startup input =
     \<lparr>cpu_running = 1, memory = replicate MEMORY_SIZE 0,
      breakpoints = replicate MAX_BREAKPOINTS 0, breakpoint_count = 0,
      DATA_DIR = 0, DATA_BUS = 0, CONTROL_PORT = 0x0D,
      bus_trace = [], bus_cycle = 0, rx = input, tx = []\<rparr>"

section \<open>Memory store\<close>

text \<open>
  \<open>write_memory\<close> returns the status byte and the state; \<open>read_memory\<close> returns the
  status byte and the byte stored through the out-pointer.
\<close>

definition write_memory :: "u16 \<Rightarrow> u8 \<Rightarrow> state \<Rightarrow> u8 \<times> state" where
  "write_memory address data s =
     (if unat address < MEMORY_SIZE
      then (1, s\<lparr>memory := (memory s)[unat address := data]\<rparr>)
      else (0, s))"

definition read_memory :: "u16 \<Rightarrow> state \<Rightarrow> u8 \<times> u8" where
  "read_memory address s =
     (if unat address < MEMORY_SIZE
      then (1, memory s ! unat address)
      else (0, 0xFF))"

section \<open>Registers and delays\<close>

definition write_DATA_DIR :: "u8 \<Rightarrow> state \<Rightarrow> state" where
  "write_DATA_DIR v s = s\<lparr>DATA_DIR := v, bus_trace := bus_trace s @ [Write_DATA_DIR v]\<rparr>"

definition write_DATA_BUS :: "u8 \<Rightarrow> state \<Rightarrow> state" where
  "write_DATA_BUS v s = s\<lparr>DATA_BUS := v, bus_trace := bus_trace s @ [Write_DATA_BUS v]\<rparr>"

definition write_CONTROL_PORT :: "u8 \<Rightarrow> state \<Rightarrow> state" where
  "write_CONTROL_PORT v s =
     s\<lparr>CONTROL_PORT := v, bus_trace := bus_trace s @ [Write_CONTROL_PORT v]\<rparr>"

definition delay_us :: "nat \<Rightarrow> state \<Rightarrow> state" where
  "delay_us n s = s\<lparr>bus_trace := bus_trace s @ [Delay_us n]\<rparr>"

definition delay_ms :: "nat \<Rightarrow> state \<Rightarrow> state" where
  "delay_ms n s = s\<lparr>bus_trace := bus_trace s @ [Delay_ms n]\<rparr>"

section \<open>Serial channel\<close>

text \<open>
  \<open>receive_byte\<close> waits until a byte has arrived: with no byte left in \<open>rx\<close> it never
  returns, which is the value \<open>None\<close>. \<open>send_byte\<close> waits for the transmit register
  to empty, which the UART does by itself after each byte; it is modelled as returning.
\<close>

definition receive_byte :: "state \<Rightarrow> (u8 \<times> state) option" where
  "receive_byte s = (case rx s of [] \<Rightarrow> None | b # bs \<Rightarrow> Some (b, s\<lparr>rx := bs\<rparr>))"

definition send_byte :: "u8 \<Rightarrow> state \<Rightarrow> state" where
  "send_byte data s = s\<lparr>tx := tx s @ [data]\<rparr>"

definition hex_digits :: string where
  "hex_digits = ''0123456789ABCDEF''"

definition send_byte_hex :: "u8 \<Rightarrow> state \<Rightarrow> state" where
  "send_byte_hex data s =
     send_byte (of_char (hex_digits ! unat (data AND 0x0F)))
       (send_byte (of_char (hex_digits ! unat (drop_bit 4 data AND 0x0F))) s)"

text \<open>The end of the list stands for the terminating zero byte of the C string.\<close>

primrec send_string :: "string \<Rightarrow> state \<Rightarrow> state" where
  "send_string [] s = s"
| "send_string (c # str) s = send_string str (send_byte (of_char c) s)"

text \<open>
  The expression \<open>((uint16_t)receive_byte() << 8) | receive_byte()\<close>, the first byte
  received being the high one.
\<close>

definition receive_word :: "state \<Rightarrow> (u16 \<times> state) option" where
  "receive_word s =
     do {
       (hi, s1) \<leftarrow> receive_byte s;
       (lo, s2) \<leftarrow> receive_byte s1;
       Some (push_bit 8 (ucast hi) OR ucast lo, s2)
     }"

section \<open>Run state\<close>

definition halt_cpu :: "state \<Rightarrow> state" where
  "halt_cpu s = s\<lparr>cpu_running := 0\<rparr>"

definition release_cpu :: "state \<Rightarrow> state" where
  "release_cpu s = s\<lparr>cpu_running := 1\<rparr>"

definition reset_cpu :: "state \<Rightarrow> state" where
  "reset_cpu s =
     (let s1 = write_CONTROL_PORT (CONTROL_PORT s AND NOT (push_bit CPU_RESET 1)) s;
          s2 = delay_ms 10 s1;
          s3 = write_CONTROL_PORT (CONTROL_PORT s2 OR push_bit CPU_RESET 1) s2
      in s3\<lparr>cpu_running := 1\<rparr>)"

lemma unat_word_Suc: "i < (n :: 'a::len word) \<Longrightarrow> unat (i + 1) = Suc (unat i)"
proof -
  assume "i < n"
  then have "1 + i \<noteq> 0"
    by (metis add.commute eq_neg_iff_add_eq_0 word_order.extremum_strict)
  then show ?thesis
    by (simp add: unatSuc add.commute)
qed

section \<open>Bus responder\<close>

text \<open>The body of the \<open>if\<close> inside the breakpoint loop, up to its \<open>break\<close>.\<close>

definition breakpoint_reached :: "u16 \<Rightarrow> state \<Rightarrow> state" where
  "breakpoint_reached address s =
     send_string ''\<newline>''
       (send_byte_hex (ucast (address AND 0xFF))
         (send_byte_hex (ucast (drop_bit 8 address))
           (send_string ''Breakpoint reached at address: 0x'' (halt_cpu s))))"

text \<open>The breakpoint loop of \<open>simulate_memory\<close>, from index \<open>i\<close> on.\<close>

function check_breakpoints :: "u16 \<Rightarrow> u8 \<Rightarrow> state \<Rightarrow> state" where
  "check_breakpoints address i s =
     (if i < breakpoint_count s
      then (if address = breakpoints s ! unat i
            then breakpoint_reached address s
            else check_breakpoints address (i + 1) s)
      else s)"
  by pat_completeness auto
termination
  by (relation "measure (\<lambda>(address, i, s). unat (breakpoint_count s) - unat i)")
     (auto simp: word_less_nat_alt unat_word_Suc)

declare check_breakpoints.simps [simp del]

text \<open>
  One invocation of the responder. It samples the pins of bus cycle \<open>bus_cycle s\<close>.
\<close>

definition simulate_memory :: "(nat \<Rightarrow> bus_sample) \<Rightarrow> state \<Rightarrow> state" where
  "simulate_memory bus s0 =
     (let pins = bus (bus_cycle s0);
          s1 = s0\<lparr>bus_cycle := Suc (bus_cycle s0)\<rparr>;
          address = push_bit 8 (ucast (ADDR_BUS_HIGH pins)) OR ucast (ADDR_BUS_LOW pins);
          s2 = check_breakpoints address 0 s1
      in if CONTROL_PIN pins AND push_bit CPU_RW 1 \<noteq> 0
         then (case read_memory address s2 of
                 (ok, data) \<Rightarrow>
                   if ok \<noteq> 0
                   then write_DATA_DIR 0x00
                          (delay_us 1 (write_DATA_BUS data (write_DATA_DIR 0xFF s2)))
                   else write_DATA_DIR 0x00
                          (delay_us 1 (write_DATA_BUS 0xFF (write_DATA_DIR 0xFF s2))))
         else (let s3 = write_DATA_DIR 0x00 s2;
                   data = DATA_PIN pins
               in snd (write_memory address data s3)))"

section \<open>Step controller\<close>

text \<open>
  The \<open>do ... while (1)\<close> loop of \<open>step_cpu\<close>. It has no bound: where it never
  reaches its \<open>break\<close> the value is \<open>None\<close>.
\<close>

partial_function (option) step_cpu_loop ::
    "(nat \<Rightarrow> bus_sample) \<Rightarrow> u8 \<Rightarrow> state \<Rightarrow> state option" where
  "step_cpu_loop bus sync_high s =
     (let s1 = delay_us 1 (write_CONTROL_PORT (CONTROL_PORT s OR push_bit CPU_CLOCK 1) s);
          s2 = delay_us 1
                 (write_CONTROL_PORT (CONTROL_PORT s1 AND NOT (push_bit CPU_CLOCK 1)) s1);
          s3 = simulate_memory bus s2
      in if CONTROL_PIN_after (bus (bus_cycle s2)) AND push_bit CPU_SYNC 1 \<noteq> 0
         then (if sync_high = 0
               then step_cpu_loop bus 1 s3
               else step_cpu_loop bus sync_high s3)
         else (if sync_high \<noteq> 0
               then Some s3
               else step_cpu_loop bus sync_high s3))"

declare step_cpu_loop.simps [code]

definition step_cpu :: "(nat \<Rightarrow> bus_sample) \<Rightarrow> state \<Rightarrow> state option" where
  "step_cpu bus s = step_cpu_loop bus 0 (halt_cpu s)"

section \<open>Command dispatcher\<close>

text \<open>
  The loop of the load command, from offset \<open>i\<close> on; it returns the value of \<open>i\<close>
  on leaving the loop.
\<close>

function load_loop :: "u16 \<Rightarrow> u16 \<Rightarrow> u16 \<Rightarrow> state \<Rightarrow> (u16 \<times> state) option" where
  "load_loop address sz i s =
     (if i < sz
      then (case receive_byte s of
              None \<Rightarrow> None
            | Some (data, s1) \<Rightarrow>
                (case write_memory (address + i) data s1 of
                   (ok, s2) \<Rightarrow>
                     if ok = 0
                     then Some (i, send_string ''Error: Invalid address during load.\<newline>'' s2)
                     else load_loop address sz (i + 1) s2))
      else Some (i, s))"
  by pat_completeness auto
termination
  by (relation "measure (\<lambda>(address, sz, i, s). unat sz - unat i)")
     (auto simp: word_less_nat_alt unat_word_Suc)

declare load_loop.simps [simp del]

definition handle_serial_command :: "(nat \<Rightarrow> bus_sample) \<Rightarrow> state \<Rightarrow> state option" where
  "handle_serial_command bus s0 =
     do {
       (command, s) \<leftarrow> receive_byte s0;
       if command = of_char CHR ''R'' then
         Some (send_string ''CPU reset.\<newline>'' (reset_cpu s))
       else if command = of_char CHR ''H'' then
         Some (send_string ''CPU halted.\<newline>'' (halt_cpu s))
       else if command = of_char CHR ''C'' then
         Some (send_string ''CPU continued.\<newline>'' (release_cpu s))
       else if command = of_char CHR ''S'' then
         do {
           s1 \<leftarrow> step_cpu bus s;
           Some (send_string ''CPU stepped one instruction.\<newline>'' s1)
         }
       else if command = of_char CHR ''W'' then
         do {
           (address, s1) \<leftarrow> receive_word s;
           (data, s2) \<leftarrow> receive_byte s1;
           (case write_memory address data s2 of
              (ok, s3) \<Rightarrow>
                if ok \<noteq> 0
                then Some (send_string ''.\<newline>''
                       (send_byte_hex (ucast (address AND 0xFF))
                         (send_byte_hex (ucast (drop_bit 8 address))
                           (send_string ''Memory written at address 0x'' s3))))
                else Some (send_string ''Error: Invalid address.\<newline>'' s3))
         }
       else if command = of_char CHR ''M'' then
         do {
           (address, s1) \<leftarrow> receive_word s;
           (case read_memory address s1 of
              (ok, data) \<Rightarrow>
                if ok \<noteq> 0
                then Some (send_byte data s1)
                else Some (send_string ''Error: Invalid address.\<newline>'' s1))
         }
       else if command = of_char CHR ''L'' then
         do {
           (address, s1) \<leftarrow> receive_word s;
           (sz, s2) \<leftarrow> receive_word s1;
           (i, s3) \<leftarrow> load_loop address sz 0 s2;
           Some (if i = sz then send_string ''Data loaded successfully.\<newline>'' s3 else s3)
         }
       else if command = of_char CHR ''B'' then
         (if MAX_BREAKPOINTS \<le> unat (breakpoint_count s)
          then Some (send_string ''Error: Maximum number of breakpoints reached.\<newline>'' s)
          else
            do {
              (address, s1) \<leftarrow> receive_word s;
              let s2 = s1\<lparr>breakpoints := (breakpoints s1)[unat (breakpoint_count s1) := address],
                         breakpoint_count := breakpoint_count s1 + 1\<rparr>;
              Some (send_string ''.\<newline>''
                     (send_byte_hex (ucast (address AND 0xFF))
                       (send_byte_hex (ucast (drop_bit 8 address))
                         (send_string ''Breakpoint set at address 0x'' s2))))
            })
       else if command = of_char CHR ''G'' then
         Some (send_string ''Error: Register reading not supported.\<newline>'' s)
       else
         Some (send_string ''Error: Unknown command.\<newline>'' s)
     }"

section \<open>Checksum\<close>

function calculate_checksum_loop :: "u8 list \<Rightarrow> u16 \<Rightarrow> u16 \<Rightarrow> u8 \<Rightarrow> u8" where
  "calculate_checksum_loop data len i checksum =
     (if i < len
      then calculate_checksum_loop data len (i + 1) (checksum XOR data ! unat i)
      else checksum)"
  by pat_completeness auto
termination
  by (relation "measure (\<lambda>(data, len, i, checksum). unat len - unat i)")
     (auto simp: word_less_nat_alt unat_word_Suc)

declare calculate_checksum_loop.simps [simp del]

definition calculate_checksum :: "u8 list \<Rightarrow> u16 \<Rightarrow> u8" where
  "calculate_checksum data len = calculate_checksum_loop data len 0 0"

section \<open>Notions used in the statements\<close>

text \<open>The two characters \<open>send_byte_hex\<close> sends, and the four sent for an address.\<close>

definition hex_text :: "u8 \<Rightarrow> u8 list" where
  "hex_text data =
     [of_char (hex_digits ! unat (drop_bit 4 data AND 0x0F)),
      of_char (hex_digits ! unat (data AND 0x0F))]"

definition address_text :: "u16 \<Rightarrow> u8 list" where
  "address_text address = hex_text (ucast (drop_bit 8 address)) @ hex_text (ucast (address AND 0xFF))"

text \<open>The entries of the breakpoint array that are in use.\<close>

definition breakpoint_table :: "state \<Rightarrow> u16 list" where
  "breakpoint_table s = take (unat (breakpoint_count s)) (breakpoints s)"

text \<open>The address \<open>simulate_memory\<close> computes from the two address ports.\<close>

definition sampled_address :: "bus_sample \<Rightarrow> u16" where
  "sampled_address pins = push_bit 8 (ucast (ADDR_BUS_HIGH pins)) OR ucast (ADDR_BUS_LOW pins)"

text \<open>
  An event drives the data lines when it makes a data pin an output or stores a value in
  the data port. \<open>cycle_events s s'\<close> are the events added between \<open>s\<close> and \<open>s'\<close>.
\<close>

fun drives_data :: "event \<Rightarrow> bool" where
  "drives_data (Write_DATA_DIR v) = (v \<noteq> 0)"
| "drives_data (Write_DATA_BUS v) = True"
| "drives_data _ = False"

definition cycle_events :: "state \<Rightarrow> state \<Rightarrow> event list" where
  "cycle_events s s' = drop (length (bus_trace s)) (bus_trace s')"

text \<open>
  Example inputs: a table holding the breakpoint 0x0100, a bus on which the CPU reads
  address 0x0100 in every cycle, and one on which it writes 0x42 to that address.
\<close>

definition breakpoint_example :: state where
  "breakpoint_example =
     (startup [])\<lparr>breakpoints := (breakpoints (startup []))[0 := 0x0100],
                  breakpoint_count := 1\<rparr>"

definition read_cycle_example :: "nat \<Rightarrow> bus_sample" where
  "read_cycle_example n =
     \<lparr>ADDR_BUS_HIGH = 0x01, ADDR_BUS_LOW = 0x00, CONTROL_PIN = 0x02, DATA_PIN = 0x00,
      CONTROL_PIN_after = 0x02\<rparr>"

definition write_cycle_example :: "nat \<Rightarrow> bus_sample" where
  "write_cycle_example n =
     \<lparr>ADDR_BUS_HIGH = 0x01, ADDR_BUS_LOW = 0x00, CONTROL_PIN = 0x00, DATA_PIN = 0x42,
      CONTROL_PIN_after = 0x00\<rparr>"

text \<open>
  \<open>n\<close> invocations of the dispatcher in a row, the three bytes of a set-breakpoint
  command for an address, and the status line that answers it.
\<close>

fun handle_serial_commands :: "(nat \<Rightarrow> bus_sample) \<Rightarrow> nat \<Rightarrow> state \<Rightarrow> state option" where
  "handle_serial_commands bus 0 s = Some s"
| "handle_serial_commands bus (Suc n) s =
     Option.bind (handle_serial_command bus s) (handle_serial_commands bus n)"

definition set_breakpoint_command :: "u16 \<Rightarrow> u8 list" where
  "set_breakpoint_command a = [of_char CHR ''B'', ucast (drop_bit 8 a), ucast a]"

definition breakpoint_set_text :: "u16 \<Rightarrow> u8 list" where
  "breakpoint_set_text a =
     map of_char ''Breakpoint set at address 0x'' @ address_text a @ map of_char ''.\<newline>''"

text \<open>
  More example inputs: a table whose count has reached the maximum, ten distinct
  addresses, and the command bytes that set them followed by an eleventh command.
\<close>

definition full_table_example :: "u8 list \<Rightarrow> state" where
  "full_table_example input = (startup input)\<lparr>breakpoint_count := 10\<rparr>"

definition ten_addresses_example :: "u16 list" where
  "ten_addresses_example =
     [0x0100, 0x0101, 0x0102, 0x0103, 0x0104, 0x0105, 0x0106, 0x0107, 0x0108, 0x0109]"

definition eleven_commands_example :: "u8 list" where
  "eleven_commands_example =
     concat (map set_breakpoint_command ten_addresses_example) @ set_breakpoint_command 0x010A"

text \<open>
  The 16-bit value of two bytes received high byte first, and two load commands: one
  of four bytes at 0x0FFE, which runs past the end of memory, and one of size 0.
\<close>

definition big_endian :: "u8 \<Rightarrow> u8 \<Rightarrow> u16" where
  "big_endian hi lo = push_bit 8 (ucast hi) OR ucast lo"

definition load_example :: "u8 list" where
  "load_example = [of_char CHR ''L'', 0x0F, 0xFE, 0x00, 0x04, 0x11, 0x22, 0x33, 0x44]"

definition empty_load_example :: "u8 list" where
  "empty_load_example = [of_char CHR ''L'', 0x00, 0x10, 0x00, 0x00]"

text \<open>
  \<open>SYNC_at bus n\<close>: the SYNC pin is high when \<open>step_cpu\<close> samples it in bus cycle
  \<open>n\<close>. \<open>clock_cycle\<close> is the part of the loop body of \<open>step_cpu\<close> before that
  sample: one clock pulse and one invocation of the responder.
  \<open>returns_after_fall\<close> is what the input must hold for the loop to leave: a low sample
  once \<open>sync_high\<close> is set, a high sample followed by a low one before.
\<close>

definition SYNC_at :: "(nat \<Rightarrow> bus_sample) \<Rightarrow> nat \<Rightarrow> bool" where
  "SYNC_at bus n \<longleftrightarrow> CONTROL_PIN_after (bus n) AND push_bit CPU_SYNC 1 \<noteq> 0"

definition clock_cycle :: "(nat \<Rightarrow> bus_sample) \<Rightarrow> state \<Rightarrow> state" where
  "clock_cycle bus s =
     (let s1 = delay_us 1 (write_CONTROL_PORT (CONTROL_PORT s OR push_bit CPU_CLOCK 1) s);
          s2 = delay_us 1
                 (write_CONTROL_PORT (CONTROL_PORT s1 AND NOT (push_bit CPU_CLOCK 1)) s1)
      in simulate_memory bus s2)"

definition returns_after_fall :: "(nat \<Rightarrow> bus_sample) \<Rightarrow> u8 \<Rightarrow> state \<Rightarrow> bool" where
  "returns_after_fall bus sync_high s \<longleftrightarrow>
     (if sync_high \<noteq> 0 then \<exists>j. \<not> SYNC_at bus (bus_cycle s + j)
      else \<exists>i j. i < j \<and> SYNC_at bus (bus_cycle s + i) \<and> \<not> SYNC_at bus (bus_cycle s + j))"

text \<open>An input on which SYNC is high in bus cycle 1 only.\<close>

definition step_bus_example :: "nat \<Rightarrow> bus_sample" where
  "step_bus_example n =
     \<lparr>ADDR_BUS_HIGH = 0x00, ADDR_BUS_LOW = 0x00, CONTROL_PIN = 0x02, DATA_PIN = 0x00,
      CONTROL_PIN_after = (if n = 1 then 0x12 else 0x02)\<rparr>"

section \<open>The startup state\<close>

lemma length_memory_startup: "length (memory (startup input)) = MEMORY_SIZE"
  by (simp add: startup_def)

lemma wf_state_startup: "wf_state (startup input)"
  by (simp add: startup_def wf_state_def)

section \<open>Properties of the memory store\<close>

text \<open>
  C2. For every address \<open>a\<close> below the memory size and every byte \<open>b\<close>,
  \<open>write_memory a b\<close> succeeds and a following \<open>read_memory a\<close> yields \<open>b\<close>
  with status 1. The memory array has its declared size.
\<close>

theorem write_then_read:
  assumes "length (memory s) = MEMORY_SIZE" and "unat a < MEMORY_SIZE"
  shows "fst (write_memory a b s) = 1 \<and> read_memory a (snd (write_memory a b s)) = (1, b)"
  using assms by (simp add: write_memory_def read_memory_def)

theorem write_then_read_witness:
  "length (memory (startup [])) = MEMORY_SIZE \<and> unat (0x10 :: u16) < MEMORY_SIZE \<and>
   fst (write_memory 0x10 0x42 (startup [])) = 1 \<and>
   read_memory 0x10 (snd (write_memory 0x10 0x42 (startup []))) = (1, 0x42)"
proof -
  have in_range: "unat (0x10 :: u16) < MEMORY_SIZE"
    by (simp add: MEMORY_SIZE_def)
  from write_then_read [where s = "startup []" and a = "0x10" and b = "0x42"]
    length_memory_startup [of "[]"] in_range
  show ?thesis by blast
qed

text \<open>
  C3. For every address \<open>a\<close> at or beyond the memory size and every byte \<open>b\<close>,
  \<open>write_memory a b\<close> returns 0 and leaves the state, and so every stored byte,
  unchanged, and \<open>read_memory a\<close> returns status 0 with the byte 0xFF.
\<close>

theorem out_of_range_access:
  assumes "MEMORY_SIZE \<le> unat a"
  shows "write_memory a b s = (0, s) \<and> memory (snd (write_memory a b s)) = memory s \<and>
         read_memory a s = (0, 0xFF)"
  using assms by (simp add: write_memory_def read_memory_def)

theorem out_of_range_access_witness:
  "MEMORY_SIZE \<le> unat (0x2000 :: u16) \<and>
   write_memory 0x2000 0x42 (startup []) = (0, startup []) \<and>
   memory (snd (write_memory 0x2000 0x42 (startup []))) = memory (startup []) \<and>
   read_memory 0x2000 (startup []) = (0, 0xFF)"
proof -
  have beyond: "MEMORY_SIZE \<le> unat (0x2000 :: u16)"
    by (simp add: MEMORY_SIZE_def)
  from out_of_range_access [where a = "0x2000" and b = "0x42" and s = "startup []"] beyond
  show ?thesis by blast
qed

section \<open>Properties of the bus responder\<close>

lemma send_string_eq: "send_string str s = s\<lparr>tx := tx s @ map of_char str\<rparr>"
  by (induction str arbitrary: s) (simp_all add: send_byte_def)

lemma send_byte_hex_eq: "send_byte_hex data s = s\<lparr>tx := tx s @ hex_text data\<rparr>"
  by (simp add: send_byte_hex_def send_byte_def hex_text_def)

lemma breakpoint_reached_eq:
  "breakpoint_reached address s =
     s\<lparr>cpu_running := 0,
       tx := tx s @ map of_char ''Breakpoint reached at address: 0x'' @ address_text address @
             map of_char ''\<newline>''\<rparr>"
  unfolding breakpoint_reached_def send_string_eq send_byte_hex_eq halt_cpu_def address_text_def
  by simp

lemma check_breakpoints_eq:
  "unat (breakpoint_count s) \<le> length (breakpoints s) \<Longrightarrow>
   check_breakpoints address i s =
     (if address \<in> set (drop (unat i) (breakpoint_table s))
      then breakpoint_reached address s else s)"
proof (induction address i s rule: check_breakpoints.induct)
  case (1 address i s)
  show ?case
  proof (cases "i < breakpoint_count s")
    case True
    then have lt: "unat i < unat (breakpoint_count s)"
      by (simp add: word_less_nat_alt)
    with "1.prems" have split: "drop (unat i) (breakpoint_table s) =
        breakpoints s ! unat i # drop (Suc (unat i)) (breakpoint_table s)"
      by (simp add: breakpoint_table_def Cons_nth_drop_Suc [symmetric])
    show ?thesis
    proof (cases "address = breakpoints s ! unat i")
      case True
      with \<open>i < breakpoint_count s\<close> split show ?thesis
        by (subst check_breakpoints.simps) simp
    next
      case False
      with \<open>i < breakpoint_count s\<close> split "1.IH" "1.prems" show ?thesis
        by (subst check_breakpoints.simps) (simp add: unat_word_Suc)
    qed
  next
    case False
    then have "unat (breakpoint_count s) \<le> unat i"
      by (simp add: word_less_nat_alt)
    with False show ?thesis
      by (subst check_breakpoints.simps) (simp add: breakpoint_table_def)
  qed
qed

lemma check_breakpoints_cases:
  "check_breakpoints address i s = s \<or>
   check_breakpoints address i s = breakpoint_reached address s"
proof (induction address i s rule: check_breakpoints.induct)
  case (1 address i s)
  then show ?case
    by (subst (1 2) check_breakpoints.simps) auto
qed

lemma simulate_memory_write_cycle:
  assumes "CONTROL_PIN (bus (bus_cycle s)) AND push_bit CPU_RW 1 = 0"
  shows "simulate_memory bus s =
     snd (write_memory (sampled_address (bus (bus_cycle s))) (DATA_PIN (bus (bus_cycle s)))
       (write_DATA_DIR 0x00
         (check_breakpoints (sampled_address (bus (bus_cycle s))) 0
           (s\<lparr>bus_cycle := Suc (bus_cycle s)\<rparr>))))"
  using assms by (simp add: simulate_memory_def Let_def sampled_address_def)

lemma simulate_memory_read_cycle:
  assumes "CONTROL_PIN (bus (bus_cycle s)) AND push_bit CPU_RW 1 \<noteq> 0"
  shows "simulate_memory bus s =
     (let s2 = check_breakpoints (sampled_address (bus (bus_cycle s))) 0
                 (s\<lparr>bus_cycle := Suc (bus_cycle s)\<rparr>)
      in write_DATA_DIR 0x00 (delay_us 1
           (write_DATA_BUS (snd (read_memory (sampled_address (bus (bus_cycle s))) s2))
             (write_DATA_DIR 0xFF s2))))"
  using assms
  by (simp add: simulate_memory_def Let_def sampled_address_def read_memory_def)

lemma write_memory_frame:
  "bus_trace (snd (write_memory a b s)) = bus_trace s"
  "DATA_DIR (snd (write_memory a b s)) = DATA_DIR s"
  "DATA_BUS (snd (write_memory a b s)) = DATA_BUS s"
  "cpu_running (snd (write_memory a b s)) = cpu_running s"
  "tx (snd (write_memory a b s)) = tx s"
  "bus_cycle (snd (write_memory a b s)) = bus_cycle s"
  by (simp_all add: write_memory_def)

lemma check_breakpoints_frame:
  "bus_trace (check_breakpoints a i s) = bus_trace s"
  "DATA_DIR (check_breakpoints a i s) = DATA_DIR s"
  "DATA_BUS (check_breakpoints a i s) = DATA_BUS s"
  "memory (check_breakpoints a i s) = memory s"
  "bus_cycle (check_breakpoints a i s) = bus_cycle s"
  using check_breakpoints_cases [of a i s]
  by (auto simp: breakpoint_reached_eq)

lemma simulate_memory_breakpoint:
  assumes "unat (breakpoint_count s) \<le> length (breakpoints s)"
    and "sampled_address (bus (bus_cycle s)) \<in> set (breakpoint_table s)"
  shows "cpu_running (simulate_memory bus s) = 0"
    and "tx (simulate_memory bus s) =
           tx s @ map of_char ''Breakpoint reached at address: 0x'' @
           address_text (sampled_address (bus (bus_cycle s))) @ map of_char ''\<newline>''"
    and "CONTROL_PIN (bus (bus_cycle s)) AND push_bit CPU_RW 1 \<noteq> 0 \<Longrightarrow>
         cycle_events s (simulate_memory bus s) =
           [Write_DATA_DIR 0xFF,
            Write_DATA_BUS (snd (read_memory (sampled_address (bus (bus_cycle s))) s)),
            Delay_us 1, Write_DATA_DIR 0x00]"
    and "CONTROL_PIN (bus (bus_cycle s)) AND push_bit CPU_RW 1 = 0 \<Longrightarrow>
         cycle_events s (simulate_memory bus s) = [Write_DATA_DIR 0x00] \<and>
         memory (simulate_memory bus s) =
           memory (snd (write_memory (sampled_address (bus (bus_cycle s)))
             (DATA_PIN (bus (bus_cycle s))) s))"
proof -
  let ?a = "sampled_address (bus (bus_cycle s))"
  let ?s1 = "s\<lparr>bus_cycle := Suc (bus_cycle s)\<rparr>"
  have table: "breakpoint_table ?s1 = breakpoint_table s"
    by (simp add: breakpoint_table_def)
  from assms have hit: "check_breakpoints ?a 0 ?s1 = breakpoint_reached ?a ?s1"
    by (simp add: check_breakpoints_eq table)
  show "cpu_running (simulate_memory bus s) = 0"
    by (cases "CONTROL_PIN (bus (bus_cycle s)) AND push_bit CPU_RW 1 = 0")
       (simp_all add: simulate_memory_write_cycle simulate_memory_read_cycle hit Let_def
         breakpoint_reached_eq write_memory_frame write_DATA_DIR_def write_DATA_BUS_def
         delay_us_def)
  show "tx (simulate_memory bus s) =
           tx s @ map of_char ''Breakpoint reached at address: 0x'' @
           address_text ?a @ map of_char ''\<newline>''"
    by (cases "CONTROL_PIN (bus (bus_cycle s)) AND push_bit CPU_RW 1 = 0")
       (simp_all add: simulate_memory_write_cycle simulate_memory_read_cycle hit Let_def
         breakpoint_reached_eq write_memory_frame write_DATA_DIR_def write_DATA_BUS_def
         delay_us_def)
  show "cycle_events s (simulate_memory bus s) =
           [Write_DATA_DIR 0xFF, Write_DATA_BUS (snd (read_memory ?a s)),
            Delay_us 1, Write_DATA_DIR 0x00]"
    if "CONTROL_PIN (bus (bus_cycle s)) AND push_bit CPU_RW 1 \<noteq> 0"
    using that
    by (simp add: simulate_memory_read_cycle hit breakpoint_reached_eq write_DATA_DIR_def
        write_DATA_BUS_def delay_us_def cycle_events_def read_memory_def Let_def)
  show "cycle_events s (simulate_memory bus s) = [Write_DATA_DIR 0x00] \<and>
         memory (simulate_memory bus s) =
           memory (snd (write_memory ?a (DATA_PIN (bus (bus_cycle s))) s))"
    if "CONTROL_PIN (bus (bus_cycle s)) AND push_bit CPU_RW 1 = 0"
    using that
    by (simp add: simulate_memory_write_cycle hit breakpoint_reached_eq write_DATA_DIR_def
        cycle_events_def write_memory_def)
qed

lemma breakpoint_example_table:
  "unat (breakpoint_count breakpoint_example) \<le> length (breakpoints breakpoint_example)"
  "breakpoint_table breakpoint_example = [0x0100]"
  by (simp_all add: breakpoint_example_def startup_def breakpoint_table_def MAX_BREAKPOINTS_def
      take_Suc_conv_app_nth)

lemma read_cycle_example_pins:
  "sampled_address (read_cycle_example n) = 0x0100"
  "CONTROL_PIN (read_cycle_example n) AND push_bit CPU_RW 1 \<noteq> 0"
  by (simp_all add: read_cycle_example_def sampled_address_def CPU_RW_def)

lemma write_cycle_example_pins:
  "sampled_address (write_cycle_example n) = 0x0100"
  "CONTROL_PIN (write_cycle_example n) AND push_bit CPU_RW 1 = 0"
  "DATA_PIN (write_cycle_example n) = 0x42"
  by (simp_all add: write_cycle_example_def sampled_address_def)

lemma write_cycle_example_RW:
  "CONTROL_PIN (write_cycle_example (bus_cycle breakpoint_example)) AND push_bit CPU_RW 1 = 0"
  by (simp add: write_cycle_example_def)

lemma read_memory_breakpoint_example: "read_memory 0x0100 breakpoint_example = (1, 0)"
  by (simp add: read_memory_def breakpoint_example_def startup_def MEMORY_SIZE_def)

lemma address_text_example: "address_text 0x0100 = map of_char ''0100''"
  by (simp add: address_text_def hex_text_def hex_digits_def drop_bit_eq_div)

lemma bus_trace_breakpoint_example: "bus_trace breakpoint_example = []"
  by (simp add: breakpoint_example_def startup_def)

lemma DATA_BUS_breakpoint_example: "DATA_BUS breakpoint_example = 0"
  by (simp add: breakpoint_example_def startup_def)

lemma tx_breakpoint_example: "tx breakpoint_example = []"
  by (simp add: breakpoint_example_def startup_def)

text \<open>
  C8. In every invocation of \<open>simulate_memory\<close> whose sampled read/write line is low
  (the CPU writes), the only register store is \<open>DATA_DIR = 0x00\<close>: no event of the
  cycle drives the data lines, the data port is not written, and the data direction is
  input afterwards.
\<close>

theorem write_cycle_never_drives:
  assumes "CONTROL_PIN (bus (bus_cycle s)) AND push_bit CPU_RW 1 = 0"
  shows "bus_trace (simulate_memory bus s) = bus_trace s @ [Write_DATA_DIR 0x00] \<and>
         cycle_events s (simulate_memory bus s) = [Write_DATA_DIR 0x00] \<and>
         \<not> list_ex drives_data (cycle_events s (simulate_memory bus s)) \<and>
         DATA_DIR (simulate_memory bus s) = 0x00 \<and>
         DATA_BUS (simulate_memory bus s) = DATA_BUS s"
  using assms
  by (simp add: simulate_memory_write_cycle write_memory_frame
      check_breakpoints_frame write_DATA_DIR_def cycle_events_def)

theorem write_cycle_never_drives_witness:
  "CONTROL_PIN (write_cycle_example (bus_cycle breakpoint_example)) AND push_bit CPU_RW 1 = 0 \<and>
   bus_trace (simulate_memory write_cycle_example breakpoint_example) = [Write_DATA_DIR 0x00] \<and>
   \<not> list_ex drives_data
        (cycle_events breakpoint_example (simulate_memory write_cycle_example breakpoint_example)) \<and>
   DATA_DIR (simulate_memory write_cycle_example breakpoint_example) = 0x00 \<and>
   DATA_BUS (simulate_memory write_cycle_example breakpoint_example) = 0x00"
  using write_cycle_never_drives [where bus = write_cycle_example and s = breakpoint_example]
    write_cycle_example_RW
  by (simp add: bus_trace_breakpoint_example DATA_BUS_breakpoint_example)

text \<open>
  C1 as stated fails: with the breakpoint 0x0100 set and the CPU reading address 0x0100,
  the responder halts and then still puts the byte on the data lines.
\<close>

theorem breakpoint_cycle_still_drives_data:
  "sampled_address (read_cycle_example (bus_cycle breakpoint_example))
     \<in> set (breakpoint_table breakpoint_example) \<and>
   cycle_events breakpoint_example (simulate_memory read_cycle_example breakpoint_example) =
     [Write_DATA_DIR 0xFF, Write_DATA_BUS 0x00, Delay_us 1, Write_DATA_DIR 0x00] \<and>
   list_ex drives_data
     (cycle_events breakpoint_example (simulate_memory read_cycle_example breakpoint_example))"
proof -
  have hit: "sampled_address (read_cycle_example (bus_cycle breakpoint_example))
      \<in> set (breakpoint_table breakpoint_example)"
    by (simp add: breakpoint_example_table read_cycle_example_pins)
  from simulate_memory_breakpoint(3) [where bus = read_cycle_example and s = breakpoint_example,
      OF breakpoint_example_table(1) hit read_cycle_example_pins(2)]
  have "cycle_events breakpoint_example (simulate_memory read_cycle_example breakpoint_example) =
      [Write_DATA_DIR 0xFF, Write_DATA_BUS 0x00, Delay_us 1, Write_DATA_DIR 0x00]"
    by (simp add: read_cycle_example_pins read_memory_breakpoint_example)
  with hit show ?thesis by simp
qed

text \<open>
  C1, amended. In every invocation of \<open>simulate_memory\<close> whose sampled address is in
  the breakpoint table, \<open>cpu_running\<close> becomes 0 and the notification with the address
  in four hexadecimal digits is sent once; the memory transaction of the cycle is then
  carried out as in any other cycle: on a CPU read the byte read (0xFF out of range) is
  driven on the data lines for one microsecond, on a CPU write the data lines are not
  driven and the sampled byte is written.
\<close>

theorem breakpoint_cycle:
  assumes "unat (breakpoint_count s) \<le> length (breakpoints s)"
    and "sampled_address (bus (bus_cycle s)) \<in> set (breakpoint_table s)"
  shows "cpu_running (simulate_memory bus s) = 0 \<and>
         tx (simulate_memory bus s) =
           tx s @ map of_char ''Breakpoint reached at address: 0x'' @
           address_text (sampled_address (bus (bus_cycle s))) @ map of_char ''\<newline>'' \<and>
         (CONTROL_PIN (bus (bus_cycle s)) AND push_bit CPU_RW 1 \<noteq> 0 \<longrightarrow>
            cycle_events s (simulate_memory bus s) =
              [Write_DATA_DIR 0xFF,
               Write_DATA_BUS (snd (read_memory (sampled_address (bus (bus_cycle s))) s)),
               Delay_us 1, Write_DATA_DIR 0x00]) \<and>
         (CONTROL_PIN (bus (bus_cycle s)) AND push_bit CPU_RW 1 = 0 \<longrightarrow>
            cycle_events s (simulate_memory bus s) = [Write_DATA_DIR 0x00] \<and>
            memory (simulate_memory bus s) =
              memory (snd (write_memory (sampled_address (bus (bus_cycle s)))
                (DATA_PIN (bus (bus_cycle s))) s)))"
  using simulate_memory_breakpoint [where bus = bus and s = s, OF assms] by blast

theorem breakpoint_cycle_witness:
  "unat (breakpoint_count breakpoint_example) \<le> length (breakpoints breakpoint_example) \<and>
   sampled_address (write_cycle_example (bus_cycle breakpoint_example))
     \<in> set (breakpoint_table breakpoint_example) \<and>
   CONTROL_PIN (write_cycle_example (bus_cycle breakpoint_example)) AND push_bit CPU_RW 1 = 0 \<and>
   cpu_running (simulate_memory write_cycle_example breakpoint_example) = 0 \<and>
   tx (simulate_memory write_cycle_example breakpoint_example) =
     map of_char ''Breakpoint reached at address: 0x0100\<newline>'' \<and>
   cycle_events breakpoint_example (simulate_memory write_cycle_example breakpoint_example) =
     [Write_DATA_DIR 0x00] \<and>
   memory (simulate_memory write_cycle_example breakpoint_example) =
     memory (snd (write_memory 0x0100 0x42 breakpoint_example))"
proof -
  have hit: "sampled_address (write_cycle_example (bus_cycle breakpoint_example))
      \<in> set (breakpoint_table breakpoint_example)"
    by (simp add: breakpoint_example_table write_cycle_example_pins)
  have rw: "CONTROL_PIN (write_cycle_example (bus_cycle breakpoint_example))
      AND push_bit CPU_RW 1 = 0"
    by (rule write_cycle_example_pins(2))
  note cycle = breakpoint_cycle [where bus = write_cycle_example and s = breakpoint_example,
      OF breakpoint_example_table(1) hit]
  from cycle have halted: "cpu_running (simulate_memory write_cycle_example breakpoint_example) = 0"
    by blast
  from cycle have notice: "tx (simulate_memory write_cycle_example breakpoint_example) =
      map of_char ''Breakpoint reached at address: 0x0100\<newline>''"
    by (simp add: write_cycle_example_pins(1) tx_breakpoint_example address_text_example)
  from cycle rw have "cycle_events breakpoint_example
        (simulate_memory write_cycle_example breakpoint_example) = [Write_DATA_DIR 0x00] \<and>
      memory (simulate_memory write_cycle_example breakpoint_example) =
        memory (snd (write_memory
          (sampled_address (write_cycle_example (bus_cycle breakpoint_example)))
          (DATA_PIN (write_cycle_example (bus_cycle breakpoint_example))) breakpoint_example))"
    by blast
  then have stored: "cycle_events breakpoint_example
        (simulate_memory write_cycle_example breakpoint_example) = [Write_DATA_DIR 0x00] \<and>
      memory (simulate_memory write_cycle_example breakpoint_example) =
        memory (snd (write_memory 0x0100 0x42 breakpoint_example))"
    by (simp add: write_cycle_example_pins)
  from breakpoint_example_table(1) hit rw halted notice stored show ?thesis
    by blast
qed

section \<open>Properties of the command dispatcher\<close>

lemma receive_byte_Cons: "rx s = b # bs \<Longrightarrow> receive_byte s = Some (b, s\<lparr>rx := bs\<rparr>)"
  by (simp add: receive_byte_def)

lemma receive_word_Cons:
  "rx s = hi # lo # bs \<Longrightarrow>
   receive_word s = Some (push_bit 8 (ucast hi) OR ucast lo, s\<lparr>rx := bs\<rparr>)"
  by (simp add: receive_word_def receive_byte_def)

lemma set_breakpoint_full:
  assumes "MAX_BREAKPOINTS \<le> unat (breakpoint_count s)"
    and "rx s = of_char CHR ''B'' # rest"
  shows "handle_serial_command bus s =
     Some (s\<lparr>rx := rest,
             tx := tx s @ map of_char ''Error: Maximum number of breakpoints reached.\<newline>''\<rparr>)"
  using assms
  by (simp add: handle_serial_command_def receive_byte_Cons send_string_eq)

lemma set_breakpoint_ok:
  assumes "unat (breakpoint_count s) < MAX_BREAKPOINTS"
    and "rx s = of_char CHR ''B'' # hi # lo # rest"
  shows "handle_serial_command bus s =
     Some (s\<lparr>rx := rest,
             breakpoints := (breakpoints s)[unat (breakpoint_count s) :=
                               push_bit 8 (ucast hi) OR ucast lo],
             breakpoint_count := breakpoint_count s + 1,
             tx := tx s @ map of_char ''Breakpoint set at address 0x'' @
                   address_text (push_bit 8 (ucast hi) OR ucast lo) @ map of_char ''.\<newline>''\<rparr>)"
  using assms
  by (simp add: handle_serial_command_def receive_byte_Cons receive_word_Cons send_string_eq
      send_byte_hex_eq address_text_def)

lemma halt_command:
  "rx s = of_char CHR ''H'' # rest \<Longrightarrow>
   handle_serial_command bus s =
     Some (s\<lparr>rx := rest, cpu_running := 0, tx := tx s @ map of_char ''CPU halted.\<newline>''\<rparr>)"
  by (simp add: handle_serial_command_def receive_byte_Cons send_string_eq halt_cpu_def)

lemma continue_command:
  "rx s = of_char CHR ''C'' # rest \<Longrightarrow>
   handle_serial_command bus s =
     Some (s\<lparr>rx := rest, cpu_running := 1, tx := tx s @ map of_char ''CPU continued.\<newline>''\<rparr>)"
  by (simp add: handle_serial_command_def receive_byte_Cons send_string_eq release_cpu_def)

lemma full_table_example_simps:
  "rx (full_table_example input) = input"
  "tx (full_table_example input) = []"
  "MAX_BREAKPOINTS \<le> unat (breakpoint_count (full_table_example input))"
  by (simp_all add: full_table_example_def startup_def MAX_BREAKPOINTS_def)

lemma word_of_bytes: "push_bit 8 (ucast (ucast (drop_bit 8 a) :: u8)) OR ucast (ucast a :: u8) = (a :: u16)"
  by (rule bit_eqI) (auto simp: bit_simps)

lemma set_breakpoint_command_ok:
  assumes "unat (breakpoint_count s) < MAX_BREAKPOINTS"
    and "rx s = set_breakpoint_command a @ rest"
  shows "handle_serial_command bus s =
     Some (s\<lparr>rx := rest,
             breakpoints := (breakpoints s)[unat (breakpoint_count s) := a],
             breakpoint_count := breakpoint_count s + 1,
             tx := tx s @ breakpoint_set_text a\<rparr>)"
  using assms set_breakpoint_ok [where s = s and hi = "ucast (drop_bit 8 a)" and lo = "ucast a"
      and rest = rest and bus = bus]
  by (simp add: set_breakpoint_command_def breakpoint_set_text_def word_of_bytes)

lemma set_breakpoint_commands:
  assumes "unat (breakpoint_count s) + length as \<le> MAX_BREAKPOINTS"
    and "length (breakpoints s) = MAX_BREAKPOINTS"
    and "rx s = concat (map set_breakpoint_command as) @ rest"
  shows "handle_serial_commands bus (length as) s =
     Some (s\<lparr>rx := rest,
             breakpoints := take (unat (breakpoint_count s)) (breakpoints s) @ as @
               drop (unat (breakpoint_count s) + length as) (breakpoints s),
             breakpoint_count := breakpoint_count s + of_nat (length as),
             tx := tx s @ concat (map breakpoint_set_text as)\<rparr>)"
  using assms
proof (induction as arbitrary: s)
  case Nil
  then show ?case by simp
next
  case (Cons a as)
  let ?c = "unat (breakpoint_count s)"
  let ?s1 = "s\<lparr>rx := concat (map set_breakpoint_command as) @ rest,
             breakpoints := (breakpoints s)[?c := a],
             breakpoint_count := breakpoint_count s + 1,
             tx := tx s @ breakpoint_set_text a\<rparr>"
  from Cons.prems have lt: "?c < MAX_BREAKPOINTS" by simp
  then have "breakpoint_count s < 10"
    by (simp add: MAX_BREAKPOINTS_def word_less_nat_alt)
  then have count: "unat (breakpoint_count s + 1) = Suc ?c"
    by (rule unat_word_Suc)
  from lt Cons.prems(3)
  have first: "handle_serial_command bus s = Some ?s1"
    by (simp add: set_breakpoint_command_ok)
  from Cons.prems count
  have rest: "handle_serial_commands bus (length as) ?s1 =
     Some (?s1\<lparr>rx := rest,
             breakpoints := take (unat (breakpoint_count ?s1)) (breakpoints ?s1) @ as @
               drop (unat (breakpoint_count ?s1) + length as) (breakpoints ?s1),
             breakpoint_count := breakpoint_count ?s1 + of_nat (length as),
             tx := tx ?s1 @ concat (map breakpoint_set_text as)\<rparr>)"
    by (intro Cons.IH) simp_all
  from lt Cons.prems(2) have "take (Suc ?c) ((breakpoints s)[?c := a]) = take ?c (breakpoints s) @ [a]"
    by (simp add: take_Suc_conv_app_nth)
  with first rest count show ?case
    by simp
qed

lemma breakpoint_reached_changes: "breakpoint_reached a s \<noteq> s"
proof
  assume "breakpoint_reached a s = s"
  then have "tx (breakpoint_reached a s) = tx s" by simp
  then show False by (simp add: breakpoint_reached_eq)
qed

lemma startup_simps:
  "breakpoint_count (startup input) = 0"
  "length (breakpoints (startup input)) = MAX_BREAKPOINTS"
  "rx (startup input) = input"
  "tx (startup input) = []"
  by (simp_all add: startup_def)

text \<open>
  C10. When a set-breakpoint command arrives while the table is full, the dispatcher
  sends the table-full error and returns with the two address bytes still in the input:
  the next byte the dispatcher receives as a command is the first address byte. When the
  table is not full, the command consumes its two address bytes.
\<close>

theorem full_table_leaves_address_bytes:
  assumes "rx s = of_char CHR ''B'' # hi # lo # rest"
  shows "(MAX_BREAKPOINTS \<le> unat (breakpoint_count s) \<longrightarrow>
            handle_serial_command bus s =
              Some (s\<lparr>rx := hi # lo # rest,
                      tx := tx s @
                        map of_char ''Error: Maximum number of breakpoints reached.\<newline>''\<rparr>) \<and>
            map_option receive_byte (handle_serial_command bus s) =
              Some (Some (hi,
                s\<lparr>rx := lo # rest,
                  tx := tx s @
                    map of_char ''Error: Maximum number of breakpoints reached.\<newline>''\<rparr>))) \<and>
         (unat (breakpoint_count s) < MAX_BREAKPOINTS \<longrightarrow>
            map_option rx (handle_serial_command bus s) = Some rest)"
  using assms
  by (simp add: set_breakpoint_full set_breakpoint_ok receive_byte_def)

theorem full_table_leaves_address_bytes_witness:
  "rx (full_table_example (map of_char ''BHC'')) =
     of_char CHR ''B'' # of_char CHR ''H'' # of_char CHR ''C'' # [] \<and>
   MAX_BREAKPOINTS \<le> unat (breakpoint_count (full_table_example (map of_char ''BHC''))) \<and>
   map_option rx (handle_serial_command read_cycle_example
      (full_table_example (map of_char ''BHC''))) = Some (map of_char ''HC'') \<and>
   map_option tx
     (Option.bind (handle_serial_command read_cycle_example
        (full_table_example (map of_char ''BHC'')))
        (handle_serial_command read_cycle_example)) =
     Some (map of_char
       ''Error: Maximum number of breakpoints reached.\<newline>CPU halted.\<newline>'')"
proof -
  let ?s = "full_table_example (map of_char ''BHC'')"
  have input: "rx ?s = of_char CHR ''B'' # of_char CHR ''H'' # of_char CHR ''C'' # []"
    by (simp add: full_table_example_simps)
  have full: "MAX_BREAKPOINTS \<le> unat (breakpoint_count ?s)"
    by (rule full_table_example_simps)
  from full_table_leaves_address_bytes [where bus = read_cycle_example, OF input] full
  have first: "handle_serial_command read_cycle_example ?s =
      Some (?s\<lparr>rx := of_char CHR ''H'' # of_char CHR ''C'' # [],
              tx := tx ?s @
                map of_char ''Error: Maximum number of breakpoints reached.\<newline>''\<rparr>)"
    by blast
  have second: "map_option tx (handle_serial_command read_cycle_example
      (?s\<lparr>rx := of_char CHR ''H'' # of_char CHR ''C'' # [],
          tx := tx ?s @
            map of_char ''Error: Maximum number of breakpoints reached.\<newline>''\<rparr>)) =
      Some (map of_char
        ''Error: Maximum number of breakpoints reached.\<newline>CPU halted.\<newline>'')"
    by (subst halt_command [where rest = "[of_char CHR ''C'']"])
       (simp_all add: full_table_example_simps)
  from input full first second show ?thesis
    by simp
qed

text \<open>
  C4. Starting from a table with count 0, \<open>MAX_BREAKPOINTS\<close> set-breakpoint commands
  in a row all succeed (each is answered by its status line) and the table then holds
  their addresses; one more set-breakpoint command is answered by the table-full error
  and changes nothing but the input and the output. The breakpoint loop of the responder
  then takes its hit branch for exactly the addresses that were inserted.
\<close>

theorem breakpoint_table_capacity:
  assumes "breakpoint_count s = 0"
    and "length (breakpoints s) = MAX_BREAKPOINTS"
    and "length as = MAX_BREAKPOINTS"
    and "rx s = concat (map set_breakpoint_command as) @ set_breakpoint_command x @ rest"
  shows "\<exists>s'. handle_serial_commands bus MAX_BREAKPOINTS s = Some s' \<and>
           tx s' = tx s @ concat (map breakpoint_set_text as) \<and>
           breakpoint_table s' = as \<and>
           handle_serial_command bus s' =
             Some (s'\<lparr>rx := tl (rx s'),
                     tx := tx s' @
                       map of_char ''Error: Maximum number of breakpoints reached.\<newline>''\<rparr>) \<and>
           (\<forall>a. check_breakpoints a 0 s' =
                  (if a \<in> set as then breakpoint_reached a s' else s')) \<and>
           (\<forall>a. breakpoint_reached a s' \<noteq> s')"
proof -
  let ?s' = "s\<lparr>rx := set_breakpoint_command x @ rest,
             breakpoints := take (unat (breakpoint_count s)) (breakpoints s) @ as @
               drop (unat (breakpoint_count s) + length as) (breakpoints s),
             breakpoint_count := breakpoint_count s + of_nat (length as),
             tx := tx s @ concat (map breakpoint_set_text as)\<rparr>"
  from assms have run: "handle_serial_commands bus (length as) s = Some ?s'"
    by (intro set_breakpoint_commands) simp_all
  from assms have count: "unat (breakpoint_count ?s') = MAX_BREAKPOINTS"
    by (simp add: MAX_BREAKPOINTS_def)
  from assms have table: "breakpoint_table ?s' = as"
    by (simp add: breakpoint_table_def MAX_BREAKPOINTS_def)
  have full: "handle_serial_command bus ?s' =
      Some (?s'\<lparr>rx := tl (rx ?s'),
              tx := tx ?s' @
                map of_char ''Error: Maximum number of breakpoints reached.\<newline>''\<rparr>)"
    using count
    by (subst set_breakpoint_full [where rest = "tl (rx ?s')"])
       (simp_all add: set_breakpoint_command_def)
  from assms count have "unat (breakpoint_count ?s') \<le> length (breakpoints ?s')"
    by simp
  then have scan: "check_breakpoints a 0 ?s' =
      (if a \<in> set as then breakpoint_reached a ?s' else ?s')" for a
    by (simp only: check_breakpoints_eq table unat_0 drop_0)
  from run assms(3) table full scan show ?thesis
    by (intro exI [of _ ?s']) (simp add: breakpoint_reached_changes)
qed

theorem breakpoint_table_capacity_witness:
  "breakpoint_count (startup eleven_commands_example) = 0 \<and>
   length (breakpoints (startup eleven_commands_example)) = MAX_BREAKPOINTS \<and>
   length ten_addresses_example = MAX_BREAKPOINTS \<and>
   (\<exists>s'. handle_serial_commands read_cycle_example MAX_BREAKPOINTS
            (startup eleven_commands_example) = Some s' \<and>
         tx s' = concat (map breakpoint_set_text ten_addresses_example) \<and>
         breakpoint_table s' = ten_addresses_example \<and>
         map_option tx (handle_serial_command read_cycle_example s') =
           Some (concat (map breakpoint_set_text ten_addresses_example) @
             map of_char ''Error: Maximum number of breakpoints reached.\<newline>'') \<and>
         check_breakpoints 0x0105 0 s' = breakpoint_reached 0x0105 s' \<and>
         check_breakpoints 0x0200 0 s' = s')"
proof -
  let ?s = "startup eleven_commands_example"
  have len: "length ten_addresses_example = MAX_BREAKPOINTS"
    by (simp add: ten_addresses_example_def MAX_BREAKPOINTS_def)
  have input: "rx ?s = concat (map set_breakpoint_command ten_addresses_example) @
      set_breakpoint_command 0x010A @ []"
    by (simp add: startup_simps eleven_commands_example_def)
  from breakpoint_table_capacity [where s = ?s and as = ten_addresses_example and x = "0x010A"
      and rest = "[]" and bus = read_cycle_example,
      OF startup_simps(1) startup_simps(2) len input]
  obtain s' where run: "handle_serial_commands read_cycle_example MAX_BREAKPOINTS ?s = Some s'"
    and sent: "tx s' = tx ?s @ concat (map breakpoint_set_text ten_addresses_example)"
    and table: "breakpoint_table s' = ten_addresses_example"
    and full: "handle_serial_command read_cycle_example s' =
             Some (s'\<lparr>rx := tl (rx s'),
                     tx := tx s' @
                       map of_char ''Error: Maximum number of breakpoints reached.\<newline>''\<rparr>)"
    and scan: "\<And>a. check_breakpoints a 0 s' =
                  (if a \<in> set ten_addresses_example then breakpoint_reached a s' else s')"
    by blast
  have inside: "(0x0105 :: u16) \<in> set ten_addresses_example"
    and outside: "(0x0200 :: u16) \<notin> set ten_addresses_example"
    by (simp_all add: ten_addresses_example_def)
  from scan [of "0x0105"] inside
  have hit: "check_breakpoints 0x0105 0 s' = breakpoint_reached 0x0105 s'" by simp
  from scan [of "0x0200"] outside
  have miss: "check_breakpoints 0x0200 0 s' = s'" by simp
  from sent have sent': "tx s' = concat (map breakpoint_set_text ten_addresses_example)"
    by (simp add: startup_simps)
  from full sent' have full': "map_option tx (handle_serial_command read_cycle_example s') =
           Some (concat (map breakpoint_set_text ten_addresses_example) @
             map of_char ''Error: Maximum number of breakpoints reached.\<newline>'')"
    by simp
  from run sent' table full' hit miss
  have "\<exists>s'. handle_serial_commands read_cycle_example MAX_BREAKPOINTS ?s = Some s' \<and>
         tx s' = concat (map breakpoint_set_text ten_addresses_example) \<and>
         breakpoint_table s' = ten_addresses_example \<and>
         map_option tx (handle_serial_command read_cycle_example s') =
           Some (concat (map breakpoint_set_text ten_addresses_example) @
             map of_char ''Error: Maximum number of breakpoints reached.\<newline>'') \<and>
         check_breakpoints 0x0105 0 s' = breakpoint_reached 0x0105 s' \<and>
         check_breakpoints 0x0200 0 s' = s'"
    by blast
  with startup_simps(1) startup_simps(2) len show ?thesis
    by blast
qed

lemma load_loop_exit: "\<not> i < sz \<Longrightarrow> load_loop address sz i s = Some (i, s)"
  by (subst load_loop.simps) simp

lemma load_loop_invalid:
  assumes "i < sz" and "rx s = d # rest" and "MEMORY_SIZE \<le> unat (address + i)"
  shows "load_loop address sz i s =
     Some (i, s\<lparr>rx := rest,
               tx := tx s @ map of_char ''Error: Invalid address during load.\<newline>''\<rparr>)"
  using assms
  by (subst load_loop.simps) (simp add: receive_byte_Cons write_memory_def send_string_eq)

lemma load_loop_valid:
  assumes "i < sz" and "rx s = d # rest" and "unat (address + i) < MEMORY_SIZE"
  shows "load_loop address sz i s =
     load_loop address sz (i + 1)
       (s\<lparr>rx := rest, memory := (memory s)[unat (address + i) := d]\<rparr>)"
  using assms
  by (subst load_loop.simps) (simp add: receive_byte_Cons write_memory_def)

lemma unat_Suc_below: "unat (w :: u16) < MEMORY_SIZE \<Longrightarrow> unat (w + 1) = Suc (unat w)"
proof -
  assume "unat w < MEMORY_SIZE"
  then have "w < 4096"
    by (simp add: MEMORY_SIZE_def word_less_nat_alt)
  then show ?thesis by (rule unat_word_Suc)
qed

lemma load_loop_run:
  assumes "length (memory s) = MEMORY_SIZE"
    and "rx s = data @ rest"
    and "unat i + length data \<le> unat sz"
    and "unat (address + i) + length data \<le> MEMORY_SIZE"
  shows "load_loop address sz i s =
     load_loop address sz (i + of_nat (length data))
       (s\<lparr>rx := rest,
          memory := take (unat (address + i)) (memory s) @ data @
                    drop (unat (address + i) + length data) (memory s)\<rparr>)"
  using assms
proof (induction data arbitrary: i s)
  case Nil
  then have "s\<lparr>rx := rest,
          memory := take (unat (address + i)) (memory s) @ [] @
                    drop (unat (address + i) + length ([] :: u8 list)) (memory s)\<rparr> = s"
    by (intro state.equality) simp_all
  then show ?case by simp
next
  case (Cons d data)
  let ?k = "unat (address + i)"
  let ?s1 = "s\<lparr>rx := data @ rest, memory := (memory s)[?k := d]\<rparr>"
  from Cons.prems have lt: "i < sz"
    by (simp add: word_less_nat_alt)
  from Cons.prems have valid: "?k < MEMORY_SIZE"
    by simp
  from lt have i1: "unat (i + 1) = Suc (unat i)"
    by (rule unat_word_Suc)
  from valid have "unat (address + i + 1) = Suc ?k"
    by (rule unat_Suc_below)
  then have k1: "unat (address + (i + 1)) = Suc ?k"
    by (simp add: add.assoc)
  from lt Cons.prems(2) valid
  have step1: "load_loop address sz i s = load_loop address sz (i + 1) ?s1"
    by (simp add: load_loop_valid)
  from Cons.prems i1 k1
  have step2: "load_loop address sz (i + 1) ?s1 =
     load_loop address sz (i + 1 + of_nat (length data))
       (?s1\<lparr>rx := rest,
          memory := take (unat (address + (i + 1))) (memory ?s1) @ data @
                    drop (unat (address + (i + 1)) + length data) (memory ?s1)\<rparr>)"
    by (intro Cons.IH) simp_all
  from valid Cons.prems(1)
  have mem: "take (Suc ?k) (memory ?s1) @ data @ drop (Suc ?k + length data) (memory ?s1) =
      take ?k (memory s) @ (d # data) @ drop (?k + length (d # data)) (memory s)"
    by (simp add: take_Suc_conv_app_nth drop_update_cancel)
  have idx: "i + 1 + of_nat (length data) = i + of_nat (length (d # data))"
    by simp
  have "?s1\<lparr>rx := rest,
          memory := take (unat (address + (i + 1))) (memory ?s1) @ data @
                    drop (unat (address + (i + 1)) + length data) (memory ?s1)\<rparr> =
        s\<lparr>rx := rest,
          memory := take ?k (memory s) @ (d # data) @
                    drop (?k + length (d # data)) (memory s)\<rparr>"
    unfolding k1 mem by simp
  with step1 step2 idx show ?case
    by (simp only:)
qed

lemma valid_prefix_no_wrap:
  assumes "\<forall>j<n. unat (a + of_nat j) < MEMORY_SIZE" and "0 < n"
  shows "unat (a :: u16) + n \<le> MEMORY_SIZE"
  using assms
proof (induction n)
  case 0
  then show ?case by simp
next
  case (Suc n)
  show ?case
  proof (cases "n = 0")
    case True
    with Suc.prems(1) have "unat (a + of_nat 0) < MEMORY_SIZE" by blast
    with True show ?thesis by simp
  next
    case False
    with Suc have le: "unat a + n \<le> MEMORY_SIZE" by simp
    then have "unat a + n < 2 ^ 16"
      by (simp add: MEMORY_SIZE_def)
    moreover have "unat (a + of_nat n) = (unat a + n mod 2 ^ 16) mod 2 ^ 16"
      by (simp add: unat_word_ariths unat_of_nat)
    ultimately have "unat (a + of_nat n) = unat a + n"
      by simp
    moreover from Suc.prems(1) have "unat (a + of_nat n) < MEMORY_SIZE" by blast
    ultimately show ?thesis by simp
  qed
qed

lemma load_command_start:
  assumes "rx s = of_char CHR ''L'' # ahi # alo # shi # slo # input"
  shows "handle_serial_command bus s =
     Option.bind (load_loop (big_endian ahi alo) (big_endian shi slo) 0 (s\<lparr>rx := input\<rparr>))
       (\<lambda>(i, s3). Some (if i = big_endian shi slo
          then send_string ''Data loaded successfully.\<newline>'' s3 else s3))"
  using assms
  by (simp add: handle_serial_command_def receive_byte_Cons receive_word_Cons big_endian_def)

lemma load_command_empty:
  assumes "rx s = of_char CHR ''L'' # ahi # alo # 0 # 0 # rest"
  shows "handle_serial_command bus s =
     Some (s\<lparr>rx := rest, tx := tx s @ map of_char ''Data loaded successfully.\<newline>''\<rparr>)"
proof -
  have "big_endian 0 0 = 0"
    by (simp add: big_endian_def)
  with assms show ?thesis
    by (simp add: load_command_start load_loop_exit send_string_eq)
qed

lemma load_loop_partial:
  assumes len: "length (memory s) = MEMORY_SIZE"
    and input: "rx s = data @ d # rest"
    and short: "length data < unat sz"
    and valid: "\<forall>j<length data. unat (a + of_nat j) < MEMORY_SIZE"
    and invalid: "MEMORY_SIZE \<le> unat (a + of_nat (length data))"
  shows "load_loop a sz 0 s =
     Some (of_nat (length data),
       s\<lparr>rx := rest,
         memory := take (unat a) (memory s) @ data @ drop (unat a + length data) (memory s),
         tx := tx s @ map of_char ''Error: Invalid address during load.\<newline>''\<rparr>)"
proof -
  let ?n = "length data"
  have "unat sz < 2 ^ 16"
    using unsigned_less [of sz] by simp
  with short have n: "unat (of_nat ?n :: u16) = ?n"
    by (simp add: unat_of_nat)
  with short have lt: "(of_nat ?n :: u16) < sz"
    by (simp add: word_less_nat_alt)
  show ?thesis
  proof (cases "data = []")
    case True
    with input invalid lt have "load_loop a sz 0 s =
        Some (0, s\<lparr>rx := rest,
          tx := tx s @ map of_char ''Error: Invalid address during load.\<newline>''\<rparr>)"
      by (intro load_loop_invalid) simp_all
    with True show ?thesis by simp
  next
    case False
    with valid have fits: "unat a + ?n \<le> MEMORY_SIZE"
      by (intro valid_prefix_no_wrap) simp_all
    let ?s1 = "s\<lparr>rx := d # rest,
          memory := take (unat (a + 0)) (memory s) @ data @
                    drop (unat (a + 0) + ?n) (memory s)\<rparr>"
    from len input short fits
    have "load_loop a sz 0 s = load_loop a sz (0 + of_nat ?n) ?s1"
      by (intro load_loop_run) simp_all
    moreover from lt invalid
    have "load_loop a sz (of_nat ?n) ?s1 =
        Some (of_nat ?n, ?s1\<lparr>rx := rest,
          tx := tx ?s1 @ map of_char ''Error: Invalid address during load.\<newline>''\<rparr>)"
      by (intro load_loop_invalid) simp_all
    ultimately show ?thesis by simp
  qed
qed

lemma big_endian_examples:
  "big_endian 0x0F 0xFE = 0x0FFE"
  "big_endian 0x00 0x04 = 0x0004"
  by (simp_all add: big_endian_def)

text \<open>
  C7. A load command of size 0 sends the success line and writes nothing. A load
  command whose first invalid address is at offset \<open>length data\<close>, below the size,
  stores the bytes before that offset at the addresses from the start address on, leaves
  every other byte of memory as it was, and sends the load error line and no success
  line; the byte of the failing offset has been received, the bytes after it have not.
\<close>

theorem load_command:
  assumes "length (memory s) = MEMORY_SIZE"
  shows "(rx s = of_char CHR ''L'' # ahi # alo # 0 # 0 # rest \<longrightarrow>
            handle_serial_command bus s =
              Some (s\<lparr>rx := rest,
                      tx := tx s @ map of_char ''Data loaded successfully.\<newline>''\<rparr>)) \<and>
         (rx s = of_char CHR ''L'' # ahi # alo # shi # slo # data @ d # rest \<and>
          length data < unat (big_endian shi slo) \<and>
          (\<forall>j<length data. unat (big_endian ahi alo + of_nat j) < MEMORY_SIZE) \<and>
          MEMORY_SIZE \<le> unat (big_endian ahi alo + of_nat (length data)) \<longrightarrow>
            handle_serial_command bus s =
              Some (s\<lparr>rx := rest,
                      memory := take (unat (big_endian ahi alo)) (memory s) @ data @
                        drop (unat (big_endian ahi alo) + length data) (memory s),
                      tx := tx s @ map of_char ''Error: Invalid address during load.\<newline>''\<rparr>))"
proof (intro conjI impI)
  assume "rx s = of_char CHR ''L'' # ahi # alo # 0 # 0 # rest"
  then show "handle_serial_command bus s =
      Some (s\<lparr>rx := rest, tx := tx s @ map of_char ''Data loaded successfully.\<newline>''\<rparr>)"
    by (rule load_command_empty)
next
  let ?a = "big_endian ahi alo" and ?sz = "big_endian shi slo"
  assume fail: "rx s = of_char CHR ''L'' # ahi # alo # shi # slo # data @ d # rest \<and>
      length data < unat ?sz \<and>
      (\<forall>j<length data. unat (?a + of_nat j) < MEMORY_SIZE) \<and>
      MEMORY_SIZE \<le> unat (?a + of_nat (length data))"
  have "unat ?sz < 2 ^ 16"
    using unsigned_less [of ?sz] by simp
  with fail have "unat (of_nat (length data) :: u16) = length data"
    by (simp add: unat_of_nat)
  with fail have differ: "(of_nat (length data) :: u16) \<noteq> ?sz"
    by auto
  from assms fail
  have "load_loop ?a ?sz 0 (s\<lparr>rx := data @ d # rest\<rparr>) =
     Some (of_nat (length data),
       s\<lparr>rx := data @ d # rest\<rparr>\<lparr>rx := rest,
         memory := take (unat ?a) (memory (s\<lparr>rx := data @ d # rest\<rparr>)) @ data @
           drop (unat ?a + length data) (memory (s\<lparr>rx := data @ d # rest\<rparr>)),
         tx := tx (s\<lparr>rx := data @ d # rest\<rparr>) @
           map of_char ''Error: Invalid address during load.\<newline>''\<rparr>)"
    by (intro load_loop_partial) simp_all
  with fail differ show "handle_serial_command bus s =
      Some (s\<lparr>rx := rest,
              memory := take (unat ?a) (memory s) @ data @
                drop (unat ?a + length data) (memory s),
              tx := tx s @ map of_char ''Error: Invalid address during load.\<newline>''\<rparr>)"
    by (simp add: load_command_start)
qed

theorem load_command_witness:
  "length (memory (startup empty_load_example)) = MEMORY_SIZE \<and>
   rx (startup empty_load_example) = of_char CHR ''L'' # 0x00 # 0x10 # 0 # 0 # [] \<and>
   handle_serial_command read_cycle_example (startup empty_load_example) =
     Some ((startup empty_load_example)
       \<lparr>rx := [], tx := tx (startup empty_load_example) @
                       map of_char ''Data loaded successfully.\<newline>''\<rparr>) \<and>
   length (memory (startup load_example)) = MEMORY_SIZE \<and>
   rx (startup load_example) =
     of_char CHR ''L'' # 0x0F # 0xFE # 0x00 # 0x04 # [0x11, 0x22] @ 0x33 # [0x44] \<and>
   length [0x11, 0x22 :: u8] < unat (big_endian 0x00 0x04) \<and>
   unat (big_endian 0x0F 0xFE + of_nat 0) < MEMORY_SIZE \<and>
   unat (big_endian 0x0F 0xFE + of_nat 1) < MEMORY_SIZE \<and>
   MEMORY_SIZE \<le> unat (big_endian 0x0F 0xFE + of_nat (length [0x11, 0x22 :: u8])) \<and>
   handle_serial_command read_cycle_example (startup load_example) =
     Some ((startup load_example)
       \<lparr>rx := [0x44],
         memory := take (unat (big_endian 0x0F 0xFE)) (memory (startup load_example)) @
           [0x11, 0x22] @
           drop (unat (big_endian 0x0F 0xFE) + length [0x11, 0x22 :: u8])
             (memory (startup load_example)),
         tx := tx (startup load_example) @
           map of_char ''Error: Invalid address during load.\<newline>''\<rparr>)"
proof -
  let ?e = "startup empty_load_example" and ?s = "startup load_example"
  have e_in: "rx ?e = of_char CHR ''L'' # 0x00 # 0x10 # 0 # 0 # []"
    by (simp add: startup_simps empty_load_example_def)
  have s_in: "rx ?s =
      of_char CHR ''L'' # 0x0F # 0xFE # 0x00 # 0x04 # [0x11, 0x22] @ 0x33 # [0x44]"
    by (simp add: startup_simps load_example_def)
  have short: "length [0x11, 0x22 :: u8] < unat (big_endian 0x00 0x04)"
    by (simp add: big_endian_examples)
  have v0: "unat (big_endian 0x0F 0xFE + of_nat 0) < MEMORY_SIZE"
    and v1: "unat (big_endian 0x0F 0xFE + of_nat 1) < MEMORY_SIZE"
    and inv: "MEMORY_SIZE \<le> unat (big_endian 0x0F 0xFE + of_nat (length [0x11, 0x22 :: u8]))"
    by (simp_all add: big_endian_examples MEMORY_SIZE_def)
  from v0 v1 have valid: "\<forall>j<length [0x11, 0x22 :: u8].
      unat (big_endian 0x0F 0xFE + of_nat j) < MEMORY_SIZE"
    by (simp add: less_Suc_eq)
  from load_command [where s = ?e and bus = read_cycle_example and ahi = "0x00" and alo = "0x10"
      and rest = "[]", OF length_memory_startup] e_in
  have empty: "handle_serial_command read_cycle_example ?e =
     Some (?e\<lparr>rx := [], tx := tx ?e @ map of_char ''Data loaded successfully.\<newline>''\<rparr>)"
    by blast
  from load_command [where s = ?s and bus = read_cycle_example and ahi = "0x0F" and alo = "0xFE"
      and shi = "0x00" and slo = "0x04" and data = "[0x11, 0x22]" and d = "0x33"
      and rest = "[0x44]", OF length_memory_startup] s_in short valid inv
  have partial: "handle_serial_command read_cycle_example ?s =
     Some (?s\<lparr>rx := [0x44],
         memory := take (unat (big_endian 0x0F 0xFE)) (memory ?s) @ [0x11, 0x22] @
           drop (unat (big_endian 0x0F 0xFE) + length [0x11, 0x22 :: u8]) (memory ?s),
         tx := tx ?s @ map of_char ''Error: Invalid address during load.\<newline>''\<rparr>)"
    by blast
  from length_memory_startup [of empty_load_example] e_in empty
    length_memory_startup [of load_example] s_in short v0 v1 inv partial
  show ?thesis by blast
qed

section \<open>Properties of the step controller\<close>

lemma step_cpu_loop_unfold:
  "step_cpu_loop bus sync_high s =
     (if SYNC_at bus (bus_cycle s)
      then step_cpu_loop bus (if sync_high = 0 then 1 else sync_high) (clock_cycle bus s)
      else if sync_high \<noteq> 0 then Some (clock_cycle bus s)
      else step_cpu_loop bus sync_high (clock_cycle bus s))"
  by (subst step_cpu_loop.simps)
     (simp add: Let_def SYNC_at_def clock_cycle_def delay_us_def write_CONTROL_PORT_def)

lemma check_breakpoints_cpu_running:
  "cpu_running s = 0 \<Longrightarrow> cpu_running (check_breakpoints a i s) = 0"
  using check_breakpoints_cases [of a i s]
  by (auto simp: breakpoint_reached_eq)

lemma simulate_memory_bus_cycle: "bus_cycle (simulate_memory bus s) = Suc (bus_cycle s)"
  by (simp add: simulate_memory_def Let_def write_memory_frame check_breakpoints_frame
      write_DATA_DIR_def write_DATA_BUS_def delay_us_def split: prod.split)

lemma simulate_memory_cpu_running:
  "cpu_running s = 0 \<Longrightarrow> cpu_running (simulate_memory bus s) = 0"
  by (simp add: simulate_memory_def Let_def write_memory_frame check_breakpoints_cpu_running
      write_DATA_DIR_def write_DATA_BUS_def delay_us_def split: prod.split)

lemma clock_cycle_bus_cycle: "bus_cycle (clock_cycle bus s) = Suc (bus_cycle s)"
  by (simp add: clock_cycle_def Let_def simulate_memory_bus_cycle delay_us_def
      write_CONTROL_PORT_def)

lemma clock_cycle_cpu_running:
  "cpu_running s = 0 \<Longrightarrow> cpu_running (clock_cycle bus s) = 0"
  by (simp add: clock_cycle_def Let_def simulate_memory_cpu_running delay_us_def
      write_CONTROL_PORT_def)

lemma clock_cycles_bus_cycle: "bus_cycle ((clock_cycle bus ^^ n) s) = bus_cycle s + n"
  by (induction n) (simp_all add: clock_cycle_bus_cycle)

lemma clock_cycles_cpu_running:
  "cpu_running s = 0 \<Longrightarrow> cpu_running ((clock_cycle bus ^^ n) s) = 0"
  by (induction n) (simp_all add: clock_cycle_cpu_running)

lemma step_cpu_loop_fall:
  assumes "sync_high \<noteq> 0"
    and "\<forall>j<k. SYNC_at bus (bus_cycle s + j)"
    and "\<not> SYNC_at bus (bus_cycle s + k)"
  shows "step_cpu_loop bus sync_high s = Some ((clock_cycle bus ^^ Suc k) s)"
  using assms
proof (induction k arbitrary: s)
  case 0
  then show ?case
    by (subst step_cpu_loop_unfold) simp
next
  case (Suc k)
  from Suc.prems(2) have "SYNC_at bus (bus_cycle s + 0)" by blast
  with Suc.prems(1)
  have "step_cpu_loop bus sync_high s = step_cpu_loop bus sync_high (clock_cycle bus s)"
    by (subst step_cpu_loop_unfold) simp
  also have "\<dots> = Some ((clock_cycle bus ^^ Suc k) (clock_cycle bus s))"
  proof (rule Suc.IH [OF Suc.prems(1)])
    show "\<forall>j<k. SYNC_at bus (bus_cycle (clock_cycle bus s) + j)"
      using Suc.prems(2) by (auto simp: clock_cycle_bus_cycle)
    show "\<not> SYNC_at bus (bus_cycle (clock_cycle bus s) + k)"
      using Suc.prems(3) by (simp add: clock_cycle_bus_cycle)
  qed
  finally show ?case
    by (simp add: funpow_swap1)
qed

lemma step_cpu_loop_rise:
  assumes "\<forall>i<r. \<not> SYNC_at bus (bus_cycle s + i)"
    and "SYNC_at bus (bus_cycle s + r)"
    and "\<forall>j<k. SYNC_at bus (bus_cycle s + Suc r + j)"
    and "\<not> SYNC_at bus (bus_cycle s + Suc r + k)"
  shows "step_cpu_loop bus 0 s = Some ((clock_cycle bus ^^ (Suc r + Suc k)) s)"
  using assms
proof (induction r arbitrary: s)
  case 0
  then have "step_cpu_loop bus 0 s = step_cpu_loop bus 1 (clock_cycle bus s)"
    by (subst step_cpu_loop_unfold) simp
  also have "\<dots> = Some ((clock_cycle bus ^^ Suc k) (clock_cycle bus s))"
  proof (rule step_cpu_loop_fall)
    show "(1 :: u8) \<noteq> 0" by simp
    show "\<forall>j<k. SYNC_at bus (bus_cycle (clock_cycle bus s) + j)"
      using "0.prems"(3) by (simp add: clock_cycle_bus_cycle)
    show "\<not> SYNC_at bus (bus_cycle (clock_cycle bus s) + k)"
      using "0.prems"(4) by (simp add: clock_cycle_bus_cycle)
  qed
  finally show ?case
    by (simp add: funpow_swap1)
next
  case (Suc r)
  from Suc.prems(1) have "\<not> SYNC_at bus (bus_cycle s + 0)" by blast
  then have "step_cpu_loop bus 0 s = step_cpu_loop bus 0 (clock_cycle bus s)"
    by (subst step_cpu_loop_unfold) simp
  also have "\<dots> = Some ((clock_cycle bus ^^ (Suc r + Suc k)) (clock_cycle bus s))"
  proof (rule Suc.IH)
    show "\<forall>i<r. \<not> SYNC_at bus (bus_cycle (clock_cycle bus s) + i)"
      using Suc.prems(1) by (auto simp: clock_cycle_bus_cycle)
    show "SYNC_at bus (bus_cycle (clock_cycle bus s) + r)"
      using Suc.prems(2) by (simp add: clock_cycle_bus_cycle)
    show "\<forall>j<k. SYNC_at bus (bus_cycle (clock_cycle bus s) + Suc r + j)"
      using Suc.prems(3) by (simp add: clock_cycle_bus_cycle)
    show "\<not> SYNC_at bus (bus_cycle (clock_cycle bus s) + Suc r + k)"
      using Suc.prems(4) by (simp add: clock_cycle_bus_cycle)
  qed
  finally show ?case
    by (simp add: funpow_swap1)
qed

lemma first_rise_then_fall:
  assumes "\<exists>i j. i < j \<and> S i \<and> \<not> S j"
  shows "\<exists>r f. r < f \<and> (\<forall>i<r. \<not> S i) \<and> S r \<and> (\<forall>j. r < j \<and> j < f \<longrightarrow> S j) \<and> \<not> S (f :: nat)"
proof -
  from assms obtain i j where ij: "i < j" "S i" "\<not> S j" by blast
  define r where "r = (LEAST i. S i)"
  define f where "f = (LEAST j. r < j \<and> \<not> S j)"
  from ij(2) have Sr: "S r" unfolding r_def by (rule LeastI)
  have before: "\<forall>i<r. \<not> S i"
    unfolding r_def using not_less_Least by blast
  from ij(2) have "r \<le> i" unfolding r_def by (rule Least_le)
  with ij have "r < j \<and> \<not> S j" by simp
  then have fall: "r < f \<and> \<not> S f" unfolding f_def by (rule LeastI)
  have "\<forall>j. r < j \<and> j < f \<longrightarrow> S j"
    unfolding f_def using not_less_Least by blast
  with Sr before fall show ?thesis by blast
qed

lemma step_cpu_run:
  assumes "r < f"
    and "\<forall>i<r. \<not> SYNC_at bus (bus_cycle s + i)"
    and "SYNC_at bus (bus_cycle s + r)"
    and "\<forall>j. r < j \<and> j < f \<longrightarrow> SYNC_at bus (bus_cycle s + j)"
    and "\<not> SYNC_at bus (bus_cycle s + f)"
  shows "step_cpu bus s = Some ((clock_cycle bus ^^ Suc f) (halt_cpu s))"
proof -
  from assms(1) obtain k where f: "f = Suc r + k"
    using less_iff_Suc_add by auto
  have c: "bus_cycle (halt_cpu s) = bus_cycle s"
    by (simp add: halt_cpu_def)
  have "step_cpu_loop bus 0 (halt_cpu s) =
      Some ((clock_cycle bus ^^ (Suc r + Suc k)) (halt_cpu s))"
  proof (rule step_cpu_loop_rise)
    show "\<forall>i<r. \<not> SYNC_at bus (bus_cycle (halt_cpu s) + i)"
      using assms(2) by (simp add: c)
    show "SYNC_at bus (bus_cycle (halt_cpu s) + r)"
      using assms(3) by (simp add: c)
    show "\<forall>j<k. SYNC_at bus (bus_cycle (halt_cpu s) + Suc r + j)"
    proof (intro allI impI)
      fix j assume "j < k"
      then have "r < Suc r + j \<and> Suc r + j < f" by (simp add: f)
      with assms(4) have "SYNC_at bus (bus_cycle s + (Suc r + j))" by blast
      then show "SYNC_at bus (bus_cycle (halt_cpu s) + Suc r + j)"
        by (simp add: c add.assoc)
    qed
    show "\<not> SYNC_at bus (bus_cycle (halt_cpu s) + Suc r + k)"
      using assms(5) by (simp add: c f add.assoc)
  qed
  then show ?thesis
    by (simp add: step_cpu_def f)
qed

lemma step_cpu_loop_returns:
  assumes "step_cpu_loop bus sync_high s = Some s'"
  shows "returns_after_fall bus sync_high s"
proof (rule step_cpu_loop.raw_induct
    [where P = "\<lambda>bus sync_high s s'. returns_after_fall bus sync_high s", OF _ assms])
  fix loop :: "(nat \<Rightarrow> bus_sample) \<Rightarrow> u8 \<Rightarrow> state \<Rightarrow> state option"
  fix bus sync_high s s'
  assume IH: "\<And>bus sync_high s s'. loop bus sync_high s = Some s' \<Longrightarrow>
      returns_after_fall bus sync_high s"
  assume "(let s1 = delay_us 1 (write_CONTROL_PORT (CONTROL_PORT s OR push_bit CPU_CLOCK 1) s);
          s2 = delay_us 1
                 (write_CONTROL_PORT (CONTROL_PORT s1 AND NOT (push_bit CPU_CLOCK 1)) s1);
          s3 = simulate_memory bus s2
      in if CONTROL_PIN_after (bus (bus_cycle s2)) AND push_bit CPU_SYNC 1 \<noteq> 0
         then (if sync_high = 0
               then loop bus 1 s3
               else loop bus sync_high s3)
         else (if sync_high \<noteq> 0
               then Some s3
               else loop bus sync_high s3)) = Some s'"
  let ?c = "bus_cycle s"
  let ?s3 = "clock_cycle bus s"
  have c3: "bus_cycle ?s3 = Suc ?c"
    by (rule clock_cycle_bus_cycle)
  from \<open>_ = Some s'\<close> have body:
    "(if SYNC_at bus ?c
      then loop bus (if sync_high = 0 then 1 else sync_high) ?s3
      else if sync_high \<noteq> 0 then Some ?s3 else loop bus sync_high ?s3) = Some s'"
    by (simp add: Let_def SYNC_at_def clock_cycle_def delay_us_def write_CONTROL_PORT_def
        split: if_splits)
  show "returns_after_fall bus sync_high s"
  proof (cases "SYNC_at bus ?c")
    case True
    with body have "loop bus (if sync_high = 0 then 1 else sync_high) ?s3 = Some s'"
      by simp
    then have "returns_after_fall bus (if sync_high = 0 then 1 else sync_high) ?s3"
      by (rule IH)
    then obtain j where "\<not> SYNC_at bus (Suc ?c + j)"
      by (auto simp: returns_after_fall_def c3 split: if_splits)
    then have low: "\<not> SYNC_at bus (?c + Suc j)" by simp
    from True have "SYNC_at bus (?c + 0)" by simp
    with low have "\<exists>i j. i < j \<and> SYNC_at bus (?c + i) \<and> \<not> SYNC_at bus (?c + j)"
      by (intro exI [of _ 0] exI [of _ "Suc j"]) simp
    with low show ?thesis
      unfolding returns_after_fall_def by auto
  next
    case False
    then have low: "\<not> SYNC_at bus (?c + 0)" by simp
    show ?thesis
    proof (cases "sync_high = 0")
      case True
      with False body have "loop bus 0 ?s3 = Some s'"
        by simp
      then have "returns_after_fall bus 0 ?s3"
        by (rule IH)
      then obtain i j where
        "i < j" "SYNC_at bus (Suc ?c + i)" "\<not> SYNC_at bus (Suc ?c + j)"
        by (auto simp: returns_after_fall_def c3)
      then have "Suc i < Suc j \<and> SYNC_at bus (?c + Suc i) \<and> \<not> SYNC_at bus (?c + Suc j)"
        by simp
      then have "\<exists>i j. i < j \<and> SYNC_at bus (?c + i) \<and> \<not> SYNC_at bus (?c + j)"
        by blast
      with True show ?thesis
        unfolding returns_after_fall_def by simp
    next
      case False
      from low have "\<exists>j. \<not> SYNC_at bus (?c + j)"
        by blast
      with False show ?thesis
        unfolding returns_after_fall_def by simp
    qed
  qed
qed

lemma SYNC_at_step_bus_example: "SYNC_at step_bus_example n \<longleftrightarrow> n = 1"
  by (simp add: SYNC_at_def step_bus_example_def CPU_SYNC_def)

lemma bus_cycle_startup: "bus_cycle (startup input) = 0"
  by (simp add: startup_def)

lemma SYNC_at_read_cycle_example: "\<not> SYNC_at read_cycle_example n"
  by (simp add: SYNC_at_def read_cycle_example_def CPU_SYNC_def)

text \<open>
  C5. On every input on which the SYNC samples, from the current bus cycle on, are
  once high and later low, \<open>step_cpu\<close> returns. It returns after the bus cycle of the
  first low sample that follows the first high sample, so after exactly one
  assert-then-deassert transition; it has invoked the responder once per cycle, at least
  once, and \<open>cpu_running\<close> is 0 on return.
\<close>

theorem step_cpu_one_instruction:
  assumes "\<exists>i j. i < j \<and> SYNC_at bus (bus_cycle s + i) \<and> \<not> SYNC_at bus (bus_cycle s + j)"
  shows "\<exists>s' r f. step_cpu bus s = Some s' \<and>
           r < f \<and>
           (\<forall>i<r. \<not> SYNC_at bus (bus_cycle s + i)) \<and> SYNC_at bus (bus_cycle s + r) \<and>
           (\<forall>j. r < j \<and> j < f \<longrightarrow> SYNC_at bus (bus_cycle s + j)) \<and>
           \<not> SYNC_at bus (bus_cycle s + f) \<and>
           s' = (clock_cycle bus ^^ Suc f) (halt_cpu s) \<and>
           bus_cycle s' = bus_cycle s + Suc f \<and>
           bus_cycle s < bus_cycle s' \<and>
           cpu_running s' = 0"
proof -
  from first_rise_then_fall [where S = "\<lambda>n. SYNC_at bus (bus_cycle s + n)", OF assms]
  obtain r f where rf: "r < f" "\<forall>i<r. \<not> SYNC_at bus (bus_cycle s + i)"
    "SYNC_at bus (bus_cycle s + r)" "\<forall>j. r < j \<and> j < f \<longrightarrow> SYNC_at bus (bus_cycle s + j)"
    "\<not> SYNC_at bus (bus_cycle s + f)"
    by blast
  let ?s' = "(clock_cycle bus ^^ Suc f) (halt_cpu s)"
  from rf have run: "step_cpu bus s = Some ?s'"
    by (rule step_cpu_run)
  have cycles: "bus_cycle ?s' = bus_cycle s + Suc f"
    by (simp only: clock_cycles_bus_cycle) (simp add: halt_cpu_def)
  have "cpu_running (halt_cpu s) = 0"
    by (simp add: halt_cpu_def)
  then have halted: "cpu_running ?s' = 0"
    by (rule clock_cycles_cpu_running)
  from cycles have "bus_cycle s < bus_cycle ?s'"
    by simp
  with run rf cycles halted show ?thesis
    by blast
qed

theorem step_cpu_one_instruction_witness:
  "SYNC_at step_bus_example (bus_cycle (startup []) + 1) \<and>
   \<not> SYNC_at step_bus_example (bus_cycle (startup []) + 2) \<and>
   (\<exists>s'. step_cpu step_bus_example (startup []) = Some s' \<and>
         bus_cycle s' = 3 \<and> cpu_running s' = 0)"
proof -
  let ?s = "startup []"
  have rise: "SYNC_at step_bus_example (bus_cycle ?s + 1)"
    and fall: "\<not> SYNC_at step_bus_example (bus_cycle ?s + 2)"
    by (simp_all add: SYNC_at_step_bus_example bus_cycle_startup)
  then have "\<exists>i j. i < j \<and> SYNC_at step_bus_example (bus_cycle ?s + i) \<and>
      \<not> SYNC_at step_bus_example (bus_cycle ?s + j)"
    by (intro exI [of _ 1] exI [of _ 2]) simp
  from step_cpu_one_instruction [OF this]
  obtain s' r f where run: "step_cpu step_bus_example ?s = Some s'"
    and rf: "r < f" "SYNC_at step_bus_example (bus_cycle ?s + r)"
      "\<forall>j. r < j \<and> j < f \<longrightarrow> SYNC_at step_bus_example (bus_cycle ?s + j)"
    and cycles: "bus_cycle s' = bus_cycle ?s + Suc f"
    and halted: "cpu_running s' = 0"
    by blast
  from rf(2) have r: "r = 1"
    by (simp add: SYNC_at_step_bus_example bus_cycle_startup)
  have "f = 2"
  proof (rule ccontr)
    assume "f \<noteq> 2"
    with rf(1) r have "r < 2 \<and> 2 < f" by simp
    with rf(3) have "SYNC_at step_bus_example (bus_cycle ?s + 2)" by blast
    with fall show False by simp
  qed
  with cycles have "bus_cycle s' = 3"
    by (simp add: bus_cycle_startup)
  with run halted rise fall show ?thesis
    by blast
qed

text \<open>
  C6. The loop of \<open>step_cpu\<close> has no bound: on an input on which the SYNC samples
  never go from high to low, \<open>step_cpu\<close> does not return, and whenever it returns the
  input holds such a transition.
\<close>

theorem step_cpu_unbounded:
  "(\<not> (\<exists>i j. i < j \<and> SYNC_at bus (bus_cycle s + i) \<and> \<not> SYNC_at bus (bus_cycle s + j)) \<longrightarrow>
      step_cpu bus s = None) \<and>
   (\<forall>s'. step_cpu bus s = Some s' \<longrightarrow>
      (\<exists>i j. i < j \<and> SYNC_at bus (bus_cycle s + i) \<and> \<not> SYNC_at bus (bus_cycle s + j)))"
proof -
  have returns: "\<exists>i j. i < j \<and> SYNC_at bus (bus_cycle s + i) \<and> \<not> SYNC_at bus (bus_cycle s + j)"
    if "step_cpu bus s = Some s'" for s'
  proof -
    from that have "step_cpu_loop bus 0 (halt_cpu s) = Some s'"
      by (simp add: step_cpu_def)
    then have "returns_after_fall bus 0 (halt_cpu s)"
      by (rule step_cpu_loop_returns)
    then show ?thesis
      by (simp add: returns_after_fall_def halt_cpu_def)
  qed
  then show ?thesis
    by (cases "step_cpu bus s") auto
qed

theorem step_cpu_unbounded_witness:
  "\<not> (\<exists>i j. i < j \<and> SYNC_at read_cycle_example (bus_cycle (startup []) + i) \<and>
        \<not> SYNC_at read_cycle_example (bus_cycle (startup []) + j)) \<and>
   step_cpu read_cycle_example (startup []) = None"
proof -
  have never: "\<not> (\<exists>i j. i < j \<and> SYNC_at read_cycle_example (bus_cycle (startup []) + i) \<and>
        \<not> SYNC_at read_cycle_example (bus_cycle (startup []) + j))"
    by (simp add: SYNC_at_read_cycle_example)
  with step_cpu_unbounded [where bus = read_cycle_example and s = "startup []"]
  show ?thesis by blast
qed

section \<open>The arrays keep their sizes\<close>

text \<open>
  The responder, the step controller and the dispatcher keep \<open>wf_state\<close>, which holds
  at startup: the hypotheses on the array sizes in the theorems of this theory hold in
  every state the program reaches.
\<close>

lemma wf_state_frame:
  assumes "memory s' = memory s" and "breakpoints s' = breakpoints s"
    and "breakpoint_count s' = breakpoint_count s"
  shows "wf_state s' \<longleftrightarrow> wf_state s"
  using assms by (simp add: wf_state_def)

lemma write_memory_wf: "wf_state s \<Longrightarrow> wf_state (snd (write_memory a b s))"
  by (simp add: write_memory_def wf_state_def)

lemma check_breakpoints_wf: "wf_state s \<Longrightarrow> wf_state (check_breakpoints a i s)"
  using check_breakpoints_cases [of a i s]
  by (auto simp: breakpoint_reached_eq wf_state_def)

lemma simulate_memory_wf: "wf_state s \<Longrightarrow> wf_state (simulate_memory bus s)"
proof -
  assume wf: "wf_state s"
  let ?s1 = "s\<lparr>bus_cycle := Suc (bus_cycle s)\<rparr>"
  let ?a = "sampled_address (bus (bus_cycle s))"
  from wf have "wf_state ?s1"
    by (simp add: wf_state_def)
  then have scan: "wf_state (check_breakpoints ?a 0 ?s1)"
    by (rule check_breakpoints_wf)
  show ?thesis
  proof (cases "CONTROL_PIN (bus (bus_cycle s)) AND push_bit CPU_RW 1 = 0")
    case True
    from scan have "wf_state (write_DATA_DIR 0x00 (check_breakpoints ?a 0 ?s1))"
      by (simp add: wf_state_def write_DATA_DIR_def)
    then show ?thesis
      by (simp only: simulate_memory_write_cycle [where bus = bus and s = s, OF True] write_memory_wf)
  next
    case False
    with scan show ?thesis
      by (simp add: simulate_memory_read_cycle Let_def wf_state_def write_DATA_DIR_def
          write_DATA_BUS_def delay_us_def)
  qed
qed

lemma clock_cycle_wf: "wf_state s \<Longrightarrow> wf_state (clock_cycle bus s)"
proof -
  assume "wf_state s"
  then have "wf_state (delay_us 1 (write_CONTROL_PORT
      (CONTROL_PORT (delay_us 1 (write_CONTROL_PORT (CONTROL_PORT s OR push_bit CPU_CLOCK 1) s))
         AND NOT (push_bit CPU_CLOCK 1))
      (delay_us 1 (write_CONTROL_PORT (CONTROL_PORT s OR push_bit CPU_CLOCK 1) s))))"
    by (simp add: wf_state_def delay_us_def write_CONTROL_PORT_def)
  then show ?thesis
    by (simp add: clock_cycle_def Let_def simulate_memory_wf)
qed

lemma step_cpu_loop_wf:
  assumes "step_cpu_loop bus sync_high s = Some s'"
  shows "wf_state s \<longrightarrow> wf_state s'"
proof (rule step_cpu_loop.raw_induct
    [where P = "\<lambda>bus sync_high s s'. wf_state s \<longrightarrow> wf_state s'", OF _ assms])
  fix loop :: "(nat \<Rightarrow> bus_sample) \<Rightarrow> u8 \<Rightarrow> state \<Rightarrow> state option"
  fix bus sync_high s s'
  assume IH: "\<And>bus sync_high s s'. loop bus sync_high s = Some s' \<Longrightarrow>
      wf_state s \<longrightarrow> wf_state s'"
  assume "(let s1 = delay_us 1 (write_CONTROL_PORT (CONTROL_PORT s OR push_bit CPU_CLOCK 1) s);
          s2 = delay_us 1
                 (write_CONTROL_PORT (CONTROL_PORT s1 AND NOT (push_bit CPU_CLOCK 1)) s1);
          s3 = simulate_memory bus s2
      in if CONTROL_PIN_after (bus (bus_cycle s2)) AND push_bit CPU_SYNC 1 \<noteq> 0
         then (if sync_high = 0
               then loop bus 1 s3
               else loop bus sync_high s3)
         else (if sync_high \<noteq> 0
               then Some s3
               else loop bus sync_high s3)) = Some s'"
  then have body:
    "(if SYNC_at bus (bus_cycle s)
      then loop bus (if sync_high = 0 then 1 else sync_high) (clock_cycle bus s)
      else if sync_high \<noteq> 0 then Some (clock_cycle bus s)
      else loop bus sync_high (clock_cycle bus s)) = Some s'"
    by (simp add: Let_def SYNC_at_def clock_cycle_def delay_us_def write_CONTROL_PORT_def
        split: if_splits)
  show "wf_state s \<longrightarrow> wf_state s'"
  proof
    assume "wf_state s"
    then have wf: "wf_state (clock_cycle bus s)"
      by (rule clock_cycle_wf)
    show "wf_state s'"
    proof (cases "SYNC_at bus (bus_cycle s)")
      case True
      with body
      have "loop bus (if sync_high = 0 then 1 else sync_high) (clock_cycle bus s) = Some s'"
        by simp
      from IH [OF this] wf show ?thesis by blast
    next
      case False
      show ?thesis
      proof (cases "sync_high = 0")
        case True
        with False body have "loop bus sync_high (clock_cycle bus s) = Some s'"
          by simp
        from IH [OF this] wf show ?thesis by blast
      next
        case nonzero: False
        with False body have "s' = clock_cycle bus s"
          by simp
        with wf show ?thesis by simp
      qed
    qed
  qed
qed


lemma load_loop_wf:
  "load_loop address sz i s = Some (j, s') \<Longrightarrow> wf_state s \<Longrightarrow> wf_state s'"
proof (induction address sz i s rule: load_loop.induct)
  case (1 address sz i s)
  show ?case
  proof (cases "i < sz")
    case False
    with "1.prems" show ?thesis
      by (simp add: load_loop_exit)
  next
    case True
    show ?thesis
    proof (cases "rx s")
      case Nil
      with True "1.prems"(1) show ?thesis
        by (subst (asm) load_loop.simps) (simp add: receive_byte_def)
    next
      case (Cons d rest)
      let ?s1 = "s\<lparr>rx := rest\<rparr>"
      from "1.prems"(2) have wf1: "wf_state ?s1"
        by (simp add: wf_state_def)
      have rb: "receive_byte s = Some (d, ?s1)"
        using Cons by (rule receive_byte_Cons)
      show ?thesis
      proof (cases "unat (address + i) < MEMORY_SIZE")
        case False
        with True Cons "1.prems"(1)
        have "s' = s\<lparr>rx := rest,
            tx := tx s @ map of_char ''Error: Invalid address during load.\<newline>''\<rparr>"
          by (simp add: load_loop_invalid)
        with "1.prems"(2) show ?thesis
          by (simp add: wf_state_def)
      next
        case valid: True
        let ?s2 = "?s1\<lparr>memory := (memory ?s1)[unat (address + i) := d]\<rparr>"
        have wm: "write_memory (address + i) d ?s1 = (1, ?s2)"
          using valid by (simp add: write_memory_def)
        from wf1 have wf2: "wf_state ?s2"
          by (simp add: wf_state_def)
        from True Cons valid "1.prems"(1)
        have "load_loop address sz (i + 1) ?s2 = Some (j, s')"
          by (simp add: load_loop_valid)
        from "1.IH" [OF True rb refl wm [symmetric] _ this wf2] show ?thesis
          by simp
      qed
    qed
  qed
qed



lemma wf_state_send_byte [simp]: "wf_state (send_byte b s) \<longleftrightarrow> wf_state s"
  by (simp add: send_byte_def wf_state_def)

lemma wf_state_send_string [simp]: "wf_state (send_string str s) \<longleftrightarrow> wf_state s"
  by (simp add: send_string_eq wf_state_def)

lemma wf_state_send_byte_hex [simp]: "wf_state (send_byte_hex b s) \<longleftrightarrow> wf_state s"
  by (simp add: send_byte_hex_eq wf_state_def)

lemma receive_byte_wf: "receive_byte s = Some (b, s1) \<Longrightarrow> wf_state s1 \<longleftrightarrow> wf_state s"
  by (auto simp: receive_byte_def wf_state_def split: list.splits)

lemma receive_word_wf: "receive_word s = Some (w, s1) \<Longrightarrow> wf_state s1 \<longleftrightarrow> wf_state s"
  by (auto simp: receive_word_def Option.bind_eq_Some_conv dest!: receive_byte_wf)

lemma step_cpu_wf: "step_cpu bus s = Some s' \<Longrightarrow> wf_state s \<Longrightarrow> wf_state s'"
proof -
  assume "step_cpu bus s = Some s'" and "wf_state s"
  then have "step_cpu_loop bus 0 (halt_cpu s) = Some s'" and "wf_state (halt_cpu s)"
    by (simp_all add: step_cpu_def halt_cpu_def wf_state_def)
  with step_cpu_loop_wf show ?thesis by blast
qed

lemma set_breakpoint_wf:
  assumes "wf_state s" and "\<not> MAX_BREAKPOINTS \<le> unat (breakpoint_count s)"
  shows "wf_state (s\<lparr>breakpoints := (breakpoints s)[unat (breakpoint_count s) := a],
                      breakpoint_count := breakpoint_count s + 1\<rparr>)"
proof -
  from assms(2) have "breakpoint_count s < 10"
    by (simp add: MAX_BREAKPOINTS_def word_less_nat_alt)
  then have "unat (breakpoint_count s + 1) = Suc (unat (breakpoint_count s))"
    by (rule unat_word_Suc)
  with assms show ?thesis
    by (simp add: wf_state_def)
qed

lemma handle_serial_command_wf:
  assumes "handle_serial_command bus s = Some s'" and "wf_state s"
  shows "wf_state s'"
proof -
  from assms(1) obtain command s0 where rb: "receive_byte s = Some (command, s0)"
    and rest: "(if command = of_char CHR ''R'' then
         Some (send_string ''CPU reset.\<newline>'' (reset_cpu s0))
       else if command = of_char CHR ''H'' then
         Some (send_string ''CPU halted.\<newline>'' (halt_cpu s0))
       else if command = of_char CHR ''C'' then
         Some (send_string ''CPU continued.\<newline>'' (release_cpu s0))
       else if command = of_char CHR ''S'' then
         do {
           s1 \<leftarrow> step_cpu bus s0;
           Some (send_string ''CPU stepped one instruction.\<newline>'' s1)
         }
       else if command = of_char CHR ''W'' then
         do {
           (address, s1) \<leftarrow> receive_word s0;
           (data, s2) \<leftarrow> receive_byte s1;
           (case write_memory address data s2 of
              (ok, s3) \<Rightarrow>
                if ok \<noteq> 0
                then Some (send_string ''.\<newline>''
                       (send_byte_hex (ucast (address AND 0xFF))
                         (send_byte_hex (ucast (drop_bit 8 address))
                           (send_string ''Memory written at address 0x'' s3))))
                else Some (send_string ''Error: Invalid address.\<newline>'' s3))
         }
       else if command = of_char CHR ''M'' then
         do {
           (address, s1) \<leftarrow> receive_word s0;
           (case read_memory address s1 of
              (ok, data) \<Rightarrow>
                if ok \<noteq> 0
                then Some (send_byte data s1)
                else Some (send_string ''Error: Invalid address.\<newline>'' s1))
         }
       else if command = of_char CHR ''L'' then
         do {
           (address, s1) \<leftarrow> receive_word s0;
           (sz, s2) \<leftarrow> receive_word s1;
           (i, s3) \<leftarrow> load_loop address sz 0 s2;
           Some (if i = sz then send_string ''Data loaded successfully.\<newline>'' s3 else s3)
         }
       else if command = of_char CHR ''B'' then
         (if MAX_BREAKPOINTS \<le> unat (breakpoint_count s0)
          then Some (send_string ''Error: Maximum number of breakpoints reached.\<newline>'' s0)
          else
            do {
              (address, s1) \<leftarrow> receive_word s0;
              let s2 = s1\<lparr>breakpoints := (breakpoints s1)[unat (breakpoint_count s1) := address],
                         breakpoint_count := breakpoint_count s1 + 1\<rparr>;
              Some (send_string ''.\<newline>''
                     (send_byte_hex (ucast (address AND 0xFF))
                       (send_byte_hex (ucast (drop_bit 8 address))
                         (send_string ''Breakpoint set at address 0x'' s2))))
            })
       else if command = of_char CHR ''G'' then
         Some (send_string ''Error: Register reading not supported.\<newline>'' s0)
       else
         Some (send_string ''Error: Unknown command.\<newline>'' s0)) = Some s'"
    unfolding handle_serial_command_def
    by (auto simp only: Option.bind_eq_Some_conv split: prod.splits)
  from rb assms(2) have wf0: "wf_state s0"
    by (simp add: receive_byte_wf)
  consider (R) "command = of_char CHR ''R''" | (H) "command = of_char CHR ''H''"
    | (C) "command = of_char CHR ''C''" | (S) "command = of_char CHR ''S''"
    | (W) "command = of_char CHR ''W''" | (M) "command = of_char CHR ''M''"
    | (L) "command = of_char CHR ''L''" | (B) "command = of_char CHR ''B''"
    | (other) "command \<notin> of_char ` set ''RHCSWMLB''"
    by auto
  then show ?thesis
  proof cases
    case R
    with rest wf0 show ?thesis
      by (auto simp: reset_cpu_def Let_def wf_state_def write_CONTROL_PORT_def delay_ms_def
          send_string_eq)
  next
    case H
    with rest wf0 show ?thesis
      by (auto simp: halt_cpu_def wf_state_def send_string_eq)
  next
    case C
    with rest wf0 show ?thesis
      by (auto simp: release_cpu_def wf_state_def send_string_eq)
  next
    case S
    with rest obtain s1 where "step_cpu bus s0 = Some s1"
      and "s' = send_string ''CPU stepped one instruction.\<newline>'' s1"
      by (auto simp: Option.bind_eq_Some_conv)
    with wf0 show ?thesis
      by (simp add: step_cpu_wf)
  next
    case W
    with rest obtain address s1 data s2 where "receive_word s0 = Some (address, s1)"
      and "receive_byte s1 = Some (data, s2)"
      and s': "(case write_memory address data s2 of
              (ok, s3) \<Rightarrow>
                if ok \<noteq> 0
                then Some (send_string ''.\<newline>''
                       (send_byte_hex (ucast (address AND 0xFF))
                         (send_byte_hex (ucast (drop_bit 8 address))
                           (send_string ''Memory written at address 0x'' s3))))
                else Some (send_string ''Error: Invalid address.\<newline>'' s3)) = Some s'"
      by (auto simp: Option.bind_eq_Some_conv)
    with wf0 have "wf_state s2"
      by (simp add: receive_word_wf receive_byte_wf)
    then have "wf_state (snd (write_memory address data s2))"
      by (rule write_memory_wf)
    with s' show ?thesis
      by (auto split: prod.splits if_splits)
  next
    case M
    with rest obtain address s1 where "receive_word s0 = Some (address, s1)"
      and s': "(case read_memory address s1 of
              (ok, data) \<Rightarrow>
                if ok \<noteq> 0
                then Some (send_byte data s1)
                else Some (send_string ''Error: Invalid address.\<newline>'' s1)) = Some s'"
      by (auto simp: Option.bind_eq_Some_conv)
    with wf0 have "wf_state s1"
      by (simp add: receive_word_wf)
    with s' show ?thesis
      by (auto simp: send_byte_def wf_state_def split: prod.splits if_splits)
  next
    case L
    with rest obtain address s1 sz s2 i s3 where "receive_word s0 = Some (address, s1)"
      and "receive_word s1 = Some (sz, s2)"
      and loop: "load_loop address sz 0 s2 = Some (i, s3)"
      and s': "s' = (if i = sz then send_string ''Data loaded successfully.\<newline>'' s3 else s3)"
      by (auto simp: Option.bind_eq_Some_conv)
    with wf0 have "wf_state s2"
      by (simp add: receive_word_wf)
    with loop have "wf_state s3"
      by (rule load_loop_wf)
    with s' show ?thesis by simp
  next
    case B
    show ?thesis
    proof (cases "MAX_BREAKPOINTS \<le> unat (breakpoint_count s0)")
      case True
      with B rest wf0 show ?thesis by auto
    next
      case False
      with B rest obtain address s1 where rw: "receive_word s0 = Some (address, s1)"
        and s': "s' = send_string ''.\<newline>''
                     (send_byte_hex (ucast (address AND 0xFF))
                       (send_byte_hex (ucast (drop_bit 8 address))
                         (send_string ''Breakpoint set at address 0x''
                           (s1\<lparr>breakpoints :=
                                 (breakpoints s1)[unat (breakpoint_count s1) := address],
                               breakpoint_count := breakpoint_count s1 + 1\<rparr>))))"
        by (auto simp: Option.bind_eq_Some_conv Let_def)
      from rw wf0 have wf1: "wf_state s1"
        by (simp add: receive_word_wf)
      from rw have "breakpoint_count s1 = breakpoint_count s0"
        by (auto simp: receive_word_def receive_byte_def Option.bind_eq_Some_conv
            split: list.splits)
      with False have "\<not> MAX_BREAKPOINTS \<le> unat (breakpoint_count s1)" by simp
      with wf1 s' show ?thesis
        by (simp add: set_breakpoint_wf)
    qed
  next
    case other
    with rest wf0 show ?thesis
      by (auto split: if_splits)
  qed
qed

section \<open>Properties of the checksum\<close>

lemma calculate_checksum_loop_foldl:
  "unat len \<le> length data \<Longrightarrow>
   calculate_checksum_loop data len i c =
     foldl (XOR) c (drop (unat i) (take (unat len) data))"
proof (induction data len i c rule: calculate_checksum_loop.induct)
  case (1 data len i checksum)
  show ?case
  proof (cases "i < len")
    case True
    then have lt: "unat i < unat len"
      by (simp add: word_less_nat_alt)
    with "1.prems" have "drop (unat i) (take (unat len) data) =
        data ! unat i # drop (Suc (unat i)) (take (unat len) data)"
      by (simp add: Cons_nth_drop_Suc [symmetric])
    with True "1.IH" "1.prems" show ?thesis
      by (subst calculate_checksum_loop.simps) (simp add: unat_word_Suc)
  next
    case False
    then have "unat len \<le> unat i"
      by (simp add: word_less_nat_alt)
    with False show ?thesis
      by (subst calculate_checksum_loop.simps) simp
  qed
qed

text \<open>
  C9. \<open>calculate_checksum\<close> returns the XOR of the first \<open>len\<close> bytes of the
  buffer, for a buffer that holds at least \<open>len\<close> bytes, so the XOR of all its bytes
  when it holds exactly \<open>len\<close>; for length 0 the result is 0, whatever the buffer.
  The function takes the buffer and the length only: no program state is among its
  arguments.
\<close>

theorem calculate_checksum_xor:
  "(unat len \<le> length data \<longrightarrow>
      calculate_checksum data len = foldl (XOR) 0 (take (unat len) data)) \<and>
   (length data = unat len \<longrightarrow> calculate_checksum data len = foldl (XOR) 0 data) \<and>
   calculate_checksum data 0 = 0"
proof -
  have "calculate_checksum data 0 = 0"
    unfolding calculate_checksum_def
    by (subst calculate_checksum_loop.simps) simp
  then show ?thesis
    by (simp add: calculate_checksum_def calculate_checksum_loop_foldl)
qed

theorem calculate_checksum_xor_witness:
  "unat (3 :: u16) \<le> length [0x12, 0x34, 0x56 :: u8] \<and>
   length [0x12, 0x34, 0x56 :: u8] = unat (3 :: u16) \<and>
   calculate_checksum [0x12, 0x34, 0x56] 3 = 0x70 \<and>
   calculate_checksum [] 0 = 0"
  using calculate_checksum_xor [where len = 3 and data = "[0x12, 0x34, 0x56]"]
    calculate_checksum_xor [where len = 0 and data = "[]"]
  by simp

end
